theory Spec2Isabelle
  imports Complex_Main
begin

section \<open>Common vocabulary\<close>

text \<open>
  A \<open>handle\<close> is the identity of one \<^verbatim>\<open>Worker\<close> object of \<^verbatim>\<open>worker_threads\<close>; a
  \<open>promise\<close> is the identity of the promise one call of \<^verbatim>\<open>run\<close> hands to its caller.
  A task is opaque to the pool; the only thing the pool can observe of it is whether
  \<^verbatim>\<open>worker.postMessage\<close> can serialise it (it throws a \<^verbatim>\<open>DataCloneError\<close> otherwise).
\<close>

type_synonym handle = nat
type_synonym promise = nat

record task =
  payload :: nat
  cloneable :: bool

text \<open>
  The texts of the messages of the program, without the values interpolated into them
  except the number of the worker.
\<close>

datatype message =
    CapacityLow           \<comment> \<open>\<^verbatim>\<open>'Server capacity is low. Please try again later.'\<close>\<close>
  | FailedDuringExecution nat  \<comment> \<open>\<^verbatim>\<open>`Worker-${id} failed during task execution: ...`\<close>\<close>
  | FailedToPost nat      \<comment> \<open>\<^verbatim>\<open>`Worker-${id} failed to post task: ...`\<close>\<close>
  | FailedToCreate        \<comment> \<open>\<^verbatim>\<open>`Failed to create worker: ...`\<close>\<close>
  | FailedToBuild         \<comment> \<open>\<^verbatim>\<open>"Failed to build worker pool:"\<close>\<close>
  | ErrorIn nat           \<comment> \<open>\<^verbatim>\<open>`Error in ${workerId}:`\<close>, \<^verbatim>\<open>`Worker ${workerId} error:`\<close>\<close>
  | CannotSetProperty     \<comment> \<open>property access on \<^verbatim>\<open>undefined\<close>\<close>
  | CouldNotBeCloned      \<comment> \<open>\<^verbatim>\<open>postMessage\<close> of a value that cannot be serialised\<close>

text \<open>
  Modelled from the spec: the class \<^verbatim>\<open>CustomError\<close> of \<^verbatim>\<open>./types/customError\<close>, whose file
  is not among the sources (only the calls \<^verbatim>\<open>new CustomError(message, status)\<close> are). It
  is taken to keep its two arguments as the properties \<^verbatim>\<open>message\<close> and \<^verbatim>\<open>status\<close>, which
  is what the \<^verbatim>\<open>catch\<close> of \<^verbatim>\<open>run\<close> reads and what gives the specification's
  \<^verbatim>\<open>CapacityExceeded\<close> its status 503. The other constructors are the exceptions of the
  platform, which have a message and no status.
\<close>

datatype js_error =
    CustomError message nat
  | Error message
  | TypeError
  | DataCloneError
  | WorkerInitError   \<comment> \<open>what \<^verbatim>\<open>new Worker\<close> throws\<close>

fun err_status :: "js_error \<Rightarrow> nat option" where
  "err_status (CustomError m st) = Some st"
| "err_status _ = None"

fun err_message :: "js_error \<Rightarrow> message" where
  "err_message (CustomError m st) = m"
| "err_message (Error m) = m"
| "err_message TypeError = CannotSetProperty"
| "err_message DataCloneError = CouldNotBeCloned"
| "err_message WorkerInitError = FailedToCreate"

text \<open>
  A JavaScript function either returns normally, leaving a state, or throws, leaving the
  state its assignments had reached by then: \<open>Inl (e, s)\<close> is a throw of \<open>e\<close> in state \<open>s\<close>.
\<close>

type_synonym 's outcome = "(js_error \<times> 's) + 's"

fun state_of :: "'s outcome \<Rightarrow> 's" where
  "state_of (Inl (e, s)) = s"
| "state_of (Inr s) = s"

text \<open>
  \<^verbatim>\<open>new Worker(...)\<close> against the outcomes the environment has in store: whether the
  constructor returns (\<open>True\<close>) or throws, and the outcomes left. When none is left
  the constructor returns.
\<close>

fun new_Worker :: "bool list \<Rightarrow> bool \<times> bool list" where
  "new_Worker [] = (True, [])"
| "new_Worker (ok # rest) = (ok, rest)"

fun update_first :: "('a \<Rightarrow> bool) \<Rightarrow> ('a \<Rightarrow> 'a) \<Rightarrow> 'a list \<Rightarrow> 'a list" where
  "update_first P f [] = []"
| "update_first P f (x # xs) = (if P x then f x # xs else x # update_first P f xs)"

section \<open>The queue-based pool (\<^verbatim>\<open>src/unnamed/part_001\<close>, lines 9--135)\<close>

subsection \<open>Data\<close>

text \<open>
  An element of \<^verbatim>\<open>this.pool\<close>: the object literal \<^verbatim>\<open>{ id, worker, busy: false }\<close> that
  \<^verbatim>\<open>addWorkerToPool\<close> pushes, with the properties \<^verbatim>\<open>assignTasks\<close> adds later
  (\<open>None\<close> is \<^verbatim>\<open>undefined\<close> or \<^verbatim>\<open>null\<close>). \<open>wid\<close> is the number \<open>n\<close> of the id \<^verbatim>\<open>`Worker-n`\<close>.
\<close>

record workerItem =
  wid :: nat
  worker :: handle
  busy :: bool
  resolve :: "promise option"
  reject :: "promise option"
  startTime :: "int option"
  taskId :: "nat option"

text \<open>An element of \<^verbatim>\<open>this.taskQueue\<close>: \<^verbatim>\<open>{ task, taskId, resolve, reject }\<close>. The two
  callbacks of one promise are represented by the promise.\<close>

record entry =
  e_task :: task
  e_taskId :: "nat option"
  e_promise :: promise

text \<open>The value a promise is resolved with: \<^verbatim>\<open>{ result }\<close>, and \<^verbatim>\<open>log\<close> when \<^verbatim>\<open>returnLog\<close>.\<close>

record log_q =
  l_workerId :: nat
  l_messageListenerCount :: nat
  l_taskId :: "nat option"
  l_executionTime :: "int option"

record response_q =
  r_result :: nat
  r_log :: "log_q option"

text \<open>
  What the pool does to the outside world, in the order it does it: the calls of
  \<^verbatim>\<open>run\<close> it received, the entries it took from the queue, the messages it posted, the
  busy flags it cleared, the promises it settled, the workers it terminated and the lines
  it wrote with \<^verbatim>\<open>console.error\<close>.
\<close>

datatype effect_q =
    Submitted promise task
  | Shifted promise task
  | Posted handle task "nat option"
  | Released handle
  | Resolved promise response_q
  | Rejected promise js_error
  | Terminated handle
  | ConsoleError message

text \<open>
  The fields of the object (\<open>poolSize_q\<close>, \<open>returnLog_q\<close>, \<open>pool_q\<close>, \<open>taskQueue\<close>), and what
  the run-time system holds for it: the workers constructed so far with the \<^verbatim>\<open>workerId\<close>
  their listeners closed over (\<open>workers_q\<close>, oldest first), the
  workers whose \<^verbatim>\<open>once('online')\<close> listener has not fired yet (\<open>starting_q\<close>), the
  iteration at which \<^verbatim>\<open>buildPool\<close> is suspended in its \<^verbatim>\<open>await\<close> and the worker whose
  \<^verbatim>\<open>'online'\<close> it waits for (\<open>building_q\<close>), the
  number of promises created (\<open>promises_q\<close>), the outcomes of the coming calls of
  \<^verbatim>\<open>new Worker\<close> (\<open>spawns_q\<close>), and the effects so far.
\<close>

record pool_q_state =
  poolSize_q :: nat
  returnLog_q :: bool
  pool_q :: "workerItem list"
  taskQueue :: "entry list"
  workers_q :: "(handle \<times> nat) list"
  starting_q :: "handle list"
  building_q :: "(nat \<times> handle) option"
  promises_q :: nat
  spawns_q :: "bool list"
  effects_q :: "effect_q list"

definition emit_q :: "effect_q \<Rightarrow> pool_q_state \<Rightarrow> pool_q_state" where
  "emit_q x s = s\<lparr>effects_q := effects_q s @ [x]\<rparr>"

subsection \<open>\<^verbatim>\<open>assignTasks\<close>, \<^verbatim>\<open>run\<close>, \<^verbatim>\<open>handleWorkerResult\<close>\<close>

text \<open>
  \<^verbatim>\<open>assignTasks\<close>: the first idle worker, if there is one and the queue is not empty, gets
  the head of the queue. The worker object is marked in place, in the pool; then the
  message is posted, which throws when the task cannot be cloned. \<open>now\<close> is \<^verbatim>\<open>Date.now()\<close>.
  Only \<^verbatim>\<open>resolve\<close> is stored on the worker: the \<^verbatim>\<open>reject\<close> taken from the entry is dropped.
\<close>

definition assignTasks :: "int \<Rightarrow> pool_q_state \<Rightarrow> pool_q_state outcome" where
  "assignTasks now s =
     (case find (\<lambda>w. \<not> busy w) (pool_q s) of
        None \<Rightarrow> Inr s
      | Some freeWorker \<Rightarrow>
          (case taskQueue s of
             [] \<Rightarrow> Inr s
           | e # rest \<Rightarrow>
               let s1 = emit_q (Shifted (e_promise e) (e_task e))
                          (s\<lparr>taskQueue := rest,
                             pool_q := update_first (\<lambda>w. \<not> busy w)
                               (\<lambda>w. w\<lparr>busy := True, resolve := Some (e_promise e),
                                      startTime := Some now, taskId := e_taskId e\<rparr>)
                               (pool_q s)\<rparr>)
               in if cloneable (e_task e)
                  then Inr (emit_q (Posted (worker freeWorker) (e_task e) (e_taskId e)) s1)
                  else Inl (DataCloneError, s1)))"

text \<open>
  \<^verbatim>\<open>run(task, taskId)\<close>: a new promise whose executor appends the entry to the queue and
  calls \<^verbatim>\<open>assignTasks\<close>. An exception of the executor rejects the promise.
\<close>

definition run_q :: "task \<Rightarrow> nat option \<Rightarrow> int \<Rightarrow> pool_q_state \<Rightarrow> pool_q_state" where
  "run_q t tid now s =
     (let p = promises_q s;
          s1 = emit_q (Submitted p t)
                 (s\<lparr>promises_q := Suc p,
                    taskQueue := taskQueue s @ [\<lparr>e_task = t, e_taskId = tid, e_promise = p\<rparr>]\<rparr>)
      in case assignTasks now s1 of
           Inr s2 \<Rightarrow> s2
         | Inl (err, s2) \<Rightarrow> emit_q (Rejected p err) s2)"

text \<open>
  \<^verbatim>\<open>handleWorkerResult(worker, result, workerId)\<close>, the \<^verbatim>\<open>'message'\<close> listener of a worker.
  When the worker is not in the pool, \<^verbatim>\<open>find\<close> gives \<^verbatim>\<open>undefined\<close> and the assignment to
  its \<^verbatim>\<open>busy\<close> throws. \<^verbatim>\<open>workerItem.resolve(response)\<close> cannot throw, so the \<^verbatim>\<open>catch\<close>
  branch, the only place that would call \<^verbatim>\<open>workerItem.reject\<close>, is never entered.
  \<^verbatim>\<open>worker.listenerCount('message')\<close> is 1: the listener \<^verbatim>\<open>addWorkerToPool\<close> attached.
  The clock is read once for the whole listener: \<open>now\<close> is also the \<^verbatim>\<open>Date.now()\<close> of
  the \<^verbatim>\<open>assignTasks\<close> it ends with.
\<close>

definition handleWorkerResult ::
  "handle \<Rightarrow> nat \<Rightarrow> nat \<Rightarrow> int \<Rightarrow> pool_q_state \<Rightarrow> pool_q_state outcome" where
  "handleWorkerResult h result workerId now s =
     (case find (\<lambda>w. worker w = h) (pool_q s) of
        None \<Rightarrow> Inl (TypeError, s)
      | Some workerItem \<Rightarrow>
          let s1 = emit_q (Released h)
                     (s\<lparr>pool_q := update_first (\<lambda>w. worker w = h) (\<lambda>w. w\<lparr>busy := False\<rparr>) (pool_q s)\<rparr>);
              s2 = (case resolve workerItem of
                      None \<Rightarrow> s1
                    | Some p \<Rightarrow>
                        let response = \<lparr>r_result = result,
                              r_log = (if returnLog_q s
                                       then Some \<lparr>l_workerId = workerId, l_messageListenerCount = 1,
                                                  l_taskId = taskId workerItem,
                                                  l_executionTime = map_option (\<lambda>t. now - t) (startTime workerItem)\<rparr>
                                       else None)\<rparr>
                        in (emit_q (Resolved p response) s1)
                             \<lparr>pool_q := update_first (\<lambda>w. worker w = h)
                                 (\<lambda>w. w\<lparr>resolve := None, reject := None\<rparr>) (pool_q s1)\<rparr>)
          in assignTasks now s2)"

subsection \<open>\<^verbatim>\<open>addWorkerToPool\<close>, \<^verbatim>\<open>buildPool\<close>, the constructor, \<^verbatim>\<open>terminateAllWorkers\<close>\<close>

text \<open>
  \<^verbatim>\<open>addWorkerToPool\<close>, up to the point where its promise waits for \<^verbatim>\<open>'online'\<close>: the
  worker is constructed, \<^verbatim>\<open>workerId\<close> is computed from the length of the pool at that
  moment, and the listeners are attached. \<open>Inl\<close> is the promise rejected, when the
  constructor throws; \<open>Inr\<close> is the promise pending.
\<close>

definition addWorkerToPool :: "pool_q_state \<Rightarrow> pool_q_state outcome" where
  "addWorkerToPool s =
     (if fst (new_Worker (spawns_q s))
      then let newWorker = length (workers_q s);
               workerId = length (pool_q s) + 1
           in Inr (s\<lparr>spawns_q := snd (new_Worker (spawns_q s)),
                     workers_q := workers_q s @ [(newWorker, workerId)],
                     starting_q := starting_q s @ [newWorker]\<rparr>)
      else Inl (Error FailedToCreate, s\<lparr>spawns_q := snd (new_Worker (spawns_q s))\<rparr>))"

text \<open>
  \<^verbatim>\<open>buildPool\<close> from the head of its loop at iteration \<open>i\<close>, up to its next \<^verbatim>\<open>await\<close>. The
  \<^verbatim>\<open>try\<close> encloses the whole loop: a rejected \<^verbatim>\<open>addWorkerToPool\<close> leaves the loop, is
  written to \<^verbatim>\<open>console.error\<close>, and \<^verbatim>\<open>buildPool\<close> returns.
\<close>

definition buildPool_from_q :: "nat \<Rightarrow> pool_q_state \<Rightarrow> pool_q_state" where
  "buildPool_from_q i s =
     (if i < poolSize_q s
      then (case addWorkerToPool s of
              Inr s1 \<Rightarrow> s1\<lparr>building_q := Some (i, length (workers_q s))\<rparr>
            | Inl (err, s1) \<Rightarrow> emit_q (ConsoleError FailedToBuild) (s1\<lparr>building_q := None\<rparr>))
      else s\<lparr>building_q := None\<rparr>)"

definition buildPool_q :: "pool_q_state \<Rightarrow> pool_q_state" where
  "buildPool_q s = buildPool_from_q 0 s"

text \<open>
  The \<^verbatim>\<open>once('online')\<close> listener of worker \<open>h\<close>: the worker enters the pool, idle, and the
  promise of its \<^verbatim>\<open>addWorkerToPool\<close> resolves, which lets \<^verbatim>\<open>buildPool\<close> go on with the
  next iteration when that promise is the one it awaits.
\<close>

definition online_q :: "handle \<Rightarrow> pool_q_state \<Rightarrow> pool_q_state" where
  "online_q h s =
     (if h \<in> set (starting_q s)
      then (case map_of (workers_q s) h of
              None \<Rightarrow> s
            | Some workerId \<Rightarrow>
                let s1 = s\<lparr>starting_q := removeAll h (starting_q s),
                           pool_q := pool_q s @
                             [\<lparr>wid = workerId, worker = h, busy = False, resolve = None,
                               reject = None, startTime = None, taskId = None\<rparr>]\<rparr>
                in (case building_q s1 of
                      Some (i, h') \<Rightarrow> if h' = h then buildPool_from_q (Suc i) s1 else s1
                    | None \<Rightarrow> s1))
      else s)"

text \<open>The constructor: the fields, then \<^verbatim>\<open>this.buildPool()\<close>, not awaited. The fields
  \<^verbatim>\<open>workerIndex\<close>, \<^verbatim>\<open>minPercentage\<close>, \<^verbatim>\<open>maxWorkers\<close> and \<^verbatim>\<open>workerFilePath\<close> are never read
  by the methods modelled here.\<close>

definition constructor_q :: "nat \<Rightarrow> bool \<Rightarrow> bool list \<Rightarrow> pool_q_state" where
  "constructor_q n rl sp =
     buildPool_q \<lparr>poolSize_q = n, returnLog_q = rl, pool_q = [], taskQueue = [],
                  workers_q = [], starting_q = [], building_q = None, promises_q = 0,
                  spawns_q = sp, effects_q = []\<rparr>"

text \<open>\<^verbatim>\<open>terminateAllWorkers\<close>: every worker of the pool is terminated, in order, and the
  pool becomes the empty array. \<^verbatim>\<open>worker.terminate()\<close> returns a promise; it does not throw.\<close>

definition terminateAllWorkers_q :: "pool_q_state \<Rightarrow> pool_q_state" where
  "terminateAllWorkers_q s =
     (fold (\<lambda>w. emit_q (Terminated (worker w))) (pool_q s) s)\<lparr>pool_q := []\<rparr>"

subsection \<open>The pool as a reactive system\<close>

text \<open>
  What can happen to a pool: a call of \<^verbatim>\<open>run(task, taskId)\<close> (with the clock at that
  moment), a worker coming online, a worker posting a result (with the clock), a worker
  emitting \<^verbatim>\<open>'error'\<close>, and a call of \<^verbatim>\<open>terminateAllWorkers\<close> (by the \<^verbatim>\<open>'exit'\<close> handler
  or by the host). The \<^verbatim>\<open>'error'\<close> listener only writes to \<^verbatim>\<open>console.error\<close>. A worker
  that was never constructed has no listeners. Every order of these events is admitted,
  which is more than Node can produce: there a worker whose \<^verbatim>\<open>'error'\<close> event fired has
  ended and posts nothing afterwards. What holds of every sequence of events holds of
  those of the program.
\<close>

datatype event_q =
    Run_q task "nat option" int
  | Online_q handle
  | Message_q handle nat int
  | WorkerError_q handle
  | TerminateAll_q

fun step_q :: "event_q \<Rightarrow> pool_q_state \<Rightarrow> pool_q_state outcome" where
  "step_q (Run_q t tid now) s = Inr (run_q t tid now s)"
| "step_q (Online_q h) s = Inr (online_q h s)"
| "step_q (Message_q h result now) s =
     (case map_of (workers_q s) h of
        None \<Rightarrow> Inr s
      | Some workerId \<Rightarrow> handleWorkerResult h result workerId now s)"
| "step_q (WorkerError_q h) s =
     (case map_of (workers_q s) h of
        None \<Rightarrow> Inr s
      | Some workerId \<Rightarrow> Inr (emit_q (ConsoleError (ErrorIn workerId)) s))"
| "step_q TerminateAll_q s = Inr (terminateAllWorkers_q s)"

text \<open>A sequence of events; an exception that escapes a listener ends the process, in
  the state it had reached.\<close>

fun exec_q :: "event_q list \<Rightarrow> pool_q_state \<Rightarrow> pool_q_state outcome" where
  "exec_q [] s = Inr s"
| "exec_q (ev # evs) s =
     (case step_q ev s of
        Inl x \<Rightarrow> Inl x
      | Inr s' \<Rightarrow> exec_q evs s')"

section \<open>The pool of \<^verbatim>\<open>src/index.js\<close>\<close>

subsection \<open>Data\<close>

text \<open>
  A JavaScript number is an IEEE 754 double; a finite one is modelled by the rational it
  denotes (see \<open>double\<close> below for the rounding of the arithmetic). A value is a boolean
  or a number.
\<close>

datatype js_value = Boolean bool | Number rat

text \<open>An element of \<^verbatim>\<open>this.pool\<close> (\<^verbatim>\<open>WorkerObject\<close>): \<^verbatim>\<open>{ id, worker }\<close>, where \<open>wo_id\<close> is the
  number \<open>n\<close> of the id \<^verbatim>\<open>`-n-`\<close>. Every such object is built with a \<^verbatim>\<open>Worker\<close> it has just
  constructed.\<close>

record workerObject =
  wo_id :: nat
  wo_worker :: handle

text \<open>What \<^verbatim>\<open>run\<close> resolves its promise with: \<^verbatim>\<open>{ status, result }\<close>, where \<^verbatim>\<open>result\<close> is the
  worker's message with \<^verbatim>\<open>log\<close> and \<^verbatim>\<open>capacity\<close> added, or \<^verbatim>\<open>{ status, message }\<close>.\<close>

record log =
  log_worker :: nat
  log_poolLength :: nat
  log_executed :: nat

record result =
  res_data :: nat
  res_log :: "log option"
  res_capacity :: js_value

datatype reply = Completed nat result | Failed nat message

text \<open>A call of \<^verbatim>\<open>run\<close> in progress: its promise, its task and the status it computed.\<close>

record call =
  c_promise :: promise
  c_task :: task
  c_status :: nat

text \<open>A promise of \<^verbatim>\<open>executeWorker\<close> whose two listeners are attached to the worker:
  the worker object taken from the pool, the call that waits for it, what
  \<^verbatim>\<open>getMemPercent\<close> returned, and whether the promise is already settled.\<close>

record execution =
  ex_worker :: workerObject
  ex_call :: call
  ex_memStats :: js_value
  ex_settled :: bool

datatype effect =
    Post handle task         \<comment> \<open>\<^verbatim>\<open>worker.postMessage(task)\<close> that returned\<close>
  | Return promise reply     \<comment> \<open>the value \<^verbatim>\<open>run\<close> resolved with\<close>
  | Terminate handle         \<comment> \<open>\<^verbatim>\<open>worker.terminate()\<close>\<close>
  | Console message          \<comment> \<open>\<^verbatim>\<open>console.error\<close>\<close>
  | UnhandledRejection js_error

text \<open>
  The fields of the object (\<open>poolSize\<close>, \<open>memThreshold\<close>, \<open>returnLog\<close>, \<open>pool\<close>,
  \<open>initialMemory\<close>, and \<open>minWorkers\<close>, which no statement of the program assigns:
  \<open>None\<close> is \<^verbatim>\<open>undefined\<close>);
  the variables of the module (\<open>freeMemoryAvailable\<close>, \<open>tasks\<close>, and \<open>lastTaskTime\<close> and
  \<open>idleThreshold\<close> of \<^verbatim>\<open>taskManager\<close>); and what the run-time system holds: the number
  of workers constructed (the next handle), the workers built by \<^verbatim>\<open>buildPool\<close> (which
  carry its \<^verbatim>\<open>handleError\<close> listener), the workers of \<^verbatim>\<open>addNewWorkerToPool\<close> that are not
  online yet with their \<^verbatim>\<open>workerId\<close>, the executions in flight, the calls of \<^verbatim>\<open>runTask\<close>
  suspended in \<^verbatim>\<open>await this.buildPool()\<close>, the number of promises, the outcomes of the
  coming calls of \<^verbatim>\<open>new Worker\<close>, and the effects so far.
\<close>

record pool_state =
  poolSize :: nat
  memThreshold :: rat
  returnLog :: bool
  pool :: "workerObject list"
  minWorkers :: "nat option"
  initialMemory :: int
  freeMemoryAvailable :: rat
  tasks :: "nat list"
  lastTaskTime :: "int option"
  idleThreshold :: int
  constructed :: nat
  built :: "(handle \<times> nat) list"
  starting :: "(handle \<times> nat) list"
  executing :: "execution list"
  awaiting :: "call list"
  promises :: nat
  spawns :: "bool list"
  effects :: "effect list"

definition emit :: "effect \<Rightarrow> pool_state \<Rightarrow> pool_state" where
  "emit x s = s\<lparr>effects := effects s @ [x]\<rparr>"

subsection \<open>Admission: \<^verbatim>\<open>canExecuteTask\<close> and \<^verbatim>\<open>getMemPercent\<close>\<close>

definition canExecuteTask :: "int \<Rightarrow> pool_state \<Rightarrow> bool \<times> pool_state" where
  "canExecuteTask now s =
     (case lastTaskTime s of
        None \<Rightarrow> (True, s\<lparr>lastTaskTime := Some now\<rparr>)
      | Some l \<Rightarrow>
          let timeSinceLastTask = now - l;
              canExecute = (timeSinceLastTask \<ge> idleThreshold s)
          in (canExecute, if canExecute then s\<lparr>lastTaskTime := Some now\<rparr> else s))"

text \<open>
  The arithmetic of doubles. Every operation of the program on numbers is the exact
  operation followed by \<open>double\<close>, which rounds a rational to the nearest double, a tie
  to the even significand (IEEE 754 round-to-nearest-even, the only rounding of
  JavaScript). \<open>bit_length n\<close> is the number of binary digits of \<open>n\<close>; \<open>binade x\<close>, for
  \<open>x > 0\<close>, is the exponent \<open>e\<close> with \<open>2 ^ e \<le> x < 2 ^ (e + 1)\<close>; a double of that binade
  is a multiple of \<open>2 ^ (e - 52)\<close>, its 53-bit significand. Overflow to \<^verbatim>\<open>Infinity\<close> and
  the subnormal numbers are left out: the quotients of \<^verbatim>\<open>getMemPercent\<close> are ratios of
  numbers of bytes, far from both ends of the range.
\<close>

fun bit_length :: "nat \<Rightarrow> nat" where
  "bit_length n = (if n = 0 then 0 else Suc (bit_length (n div 2)))"

declare bit_length.simps [simp del]

definition binade :: "rat \<Rightarrow> int" where
  "binade x =
     (if 1 \<le> x then int (bit_length (nat \<lfloor>x\<rfloor>)) - 1
      else - int (bit_length (nat (\<lceil>1 / x\<rceil> - 1))))"

definition pow2 :: "int \<Rightarrow> rat" where
  "pow2 e = (if 0 \<le> e then 2 ^ nat e else 1 / 2 ^ nat (- e))"

definition round_half_even :: "rat \<Rightarrow> int" where
  "round_half_even m =
     (let f = \<lfloor>m\<rfloor>; r = m - of_int f
      in if r < 1 / 2 then f else if 1 / 2 < r then f + 1 else if even f then f else f + 1)"

definition double :: "rat \<Rightarrow> rat" where
  "double x =
     (if x = 0 then 0
      else let ulp = pow2 (binade \<bar>x\<bar> - 52)
           in sgn x * of_int (round_half_even (\<bar>x\<bar> / ulp)) * ulp)"

text \<open>
  \<^verbatim>\<open>x.toFixed(1)\<close>, for the exact value \<open>x\<close> of a double: the decimal \<open>n / 10\<close> that the
  string denotes, where \<open>n\<close> is the integer nearest to \<open>10 * x\<close>, the larger one of two
  (ECMAScript, \<^verbatim>\<open>Number.prototype.toFixed\<close>; a negative \<open>x\<close> is formatted as \<open>- x\<close> with a
  sign). The rounding is that of the exact value of the double, not of the decimal the
  program's author may have had in mind.
\<close>

definition toFixed1 :: "rat \<Rightarrow> rat" where
  "toFixed1 x =
     (if x < 0 then - (of_int \<lfloor>(- x) * 10 + 1 / 2\<rfloor> / 10)
      else of_int \<lfloor>x * 10 + 1 / 2\<rfloor> / 10)"

text \<open>\<^verbatim>\<open>os.freemem() / 1024 / 1024\<close>: bytes to megabytes. \<^verbatim>\<open>os.freemem()\<close> returns the
  number of bytes as a double.\<close>

definition megabytes :: "nat \<Rightarrow> rat" where
  "megabytes bytes = double (double (double (of_nat bytes) / 1024) / 1024)"

text \<open>
  The string \<^verbatim>\<open>memPercent\<close> of \<^verbatim>\<open>getMemPercent\<close>, as the decimal it denotes, from what
  \<^verbatim>\<open>os.freemem()\<close> returns and the free memory measured when the module was loaded:
  \<^verbatim>\<open>((memUsed / freeMemoryAvailable) * 100).toFixed(1)\<close>, a subtraction, a division and a
  multiplication of doubles.
\<close>

definition memPercent :: "nat \<Rightarrow> pool_state \<Rightarrow> rat" where
  "memPercent freemem s =
     (let freeMemory = megabytes freemem;
          memUsed = double (freeMemoryAvailable s - freeMemory)
      in toFixed1 (double (double (memUsed / freeMemoryAvailable s) * 100)))"

text \<open>
  \<^verbatim>\<open>getMemPercent\<close>. Each comparison of the string \<^verbatim>\<open>memPercent\<close> with the number
  \<^verbatim>\<open>this.memThreshold\<close> converts the string to the nearest double. When
  \<open>freeMemoryAvailable\<close> is zero the division gives \<^verbatim>\<open>NaN\<close> (both comparisons false) or
  \<^verbatim>\<open>-Infinity\<close> (below every threshold); HOL's \<open>x / 0 = 0\<close> is not used.
\<close>

definition getMemPercent :: "nat \<Rightarrow> pool_state \<Rightarrow> js_error + js_value" where
  "getMemPercent freemem s =
     (if freeMemoryAvailable s = 0
      then Inr (Boolean (0 < freemem))
      else if double (memPercent freemem s) > memThreshold s
           then Inl (CustomError CapacityLow 503)
           else Inr (Boolean (double (memPercent freemem s) < memThreshold s)))"

subsection \<open>\<^verbatim>\<open>terminateExcessWorkers\<close> and \<^verbatim>\<open>terminateAllWorkers\<close>\<close>

text \<open>\<^verbatim>\<open>n > this.minWorkers\<close>: a comparison with \<^verbatim>\<open>undefined\<close> is a comparison with
  \<^verbatim>\<open>NaN\<close>, which is false.\<close>

fun js_gt :: "nat \<Rightarrow> nat option \<Rightarrow> bool" where
  "js_gt n None = False"
| "js_gt n (Some m) = (n > m)"

function terminateExcessWorkers :: "pool_state \<Rightarrow> pool_state" where
  "terminateExcessWorkers s =
     (if js_gt (length (pool s)) (minWorkers s)
      then terminateExcessWorkers
             (emit (Terminate (wo_worker (last (pool s)))) (s\<lparr>pool := butlast (pool s)\<rparr>))
      else s)"
  by pat_completeness auto
termination
proof (relation "measure (\<lambda>s. length (pool s))")
  show "wf (measure (\<lambda>s. length (pool s)))" by simp
next
  fix s :: pool_state
  assume "js_gt (length (pool s)) (minWorkers s)"
  then have "pool s \<noteq> []" by (cases "minWorkers s") auto
  then show "(emit (Terminate (wo_worker (last (pool s)))) (s\<lparr>pool := butlast (pool s)\<rparr>), s)
              \<in> measure (\<lambda>s. length (pool s))"
    by (simp add: emit_def)
qed

function terminateAllWorkers :: "pool_state \<Rightarrow> pool_state" where
  "terminateAllWorkers s =
     (if length (pool s) > 0
      then terminateAllWorkers
             (emit (Terminate (wo_worker (last (pool s)))) (s\<lparr>pool := butlast (pool s)\<rparr>))
      else s)"
  by pat_completeness auto
termination
  by (relation "measure (\<lambda>s. length (pool s))") (auto simp: emit_def)

declare terminateExcessWorkers.simps [simp del]
declare terminateAllWorkers.simps [simp del]

subsection \<open>\<^verbatim>\<open>buildPool\<close>, \<^verbatim>\<open>addNewWorkerToPool\<close>, the constructor\<close>

text \<open>
  \<^verbatim>\<open>buildPool\<close> from the head of its loop at iteration \<open>i\<close>. There is no \<^verbatim>\<open>await\<close> and
  no \<^verbatim>\<open>try\<close> in the loop: it runs to its end in one go, and a constructor that throws
  leaves the loop and the \<^verbatim>\<open>async\<close> executor (\<open>Inl\<close>), so that \<^verbatim>\<open>resolve()\<close> is never
  called.
\<close>

function buildPool_from :: "nat \<Rightarrow> pool_state \<Rightarrow> pool_state outcome" where
  "buildPool_from i s =
     (if i < poolSize s
      then (if fst (new_Worker (spawns s))
            then buildPool_from (Suc i)
                   (s\<lparr>spawns := snd (new_Worker (spawns s)),
                      constructed := Suc (constructed s),
                      built := built s @ [(constructed s, i + 1)],
                      pool := pool s @ [\<lparr>wo_id = i + 1, wo_worker = constructed s\<rparr>]\<rparr>)
            else Inl (WorkerInitError, s\<lparr>spawns := snd (new_Worker (spawns s))\<rparr>))
      else Inr s)"
  by pat_completeness auto
termination
  by (relation "measure (\<lambda>(i, s). poolSize s - i)") auto

declare buildPool_from.simps [simp del]

definition buildPool :: "pool_state \<Rightarrow> pool_state outcome" where
  "buildPool s = buildPool_from 0 s"

text \<open>
  \<^verbatim>\<open>addNewWorkerToPool\<close>, up to the point where its promise waits for \<^verbatim>\<open>'online'\<close>. With
  a full pool it resolves at once, with \<^verbatim>\<open>undefined\<close>. \<open>Inl\<close> is the promise rejected.
\<close>

definition addNewWorkerToPool :: "pool_state \<Rightarrow> pool_state outcome" where
  "addNewWorkerToPool s =
     (if length (pool s) \<ge> poolSize s then Inr s
      else if fst (new_Worker (spawns s))
           then Inr (s\<lparr>spawns := snd (new_Worker (spawns s)),
                       constructed := Suc (constructed s),
                       starting := starting s @ [(constructed s, length (pool s) + 1)]\<rparr>)
           else Inl (CustomError FailedToCreate 300, s\<lparr>spawns := snd (new_Worker (spawns s))\<rparr>))"

text \<open>The \<^verbatim>\<open>once('online')\<close> listener of a worker of \<^verbatim>\<open>addNewWorkerToPool\<close>.\<close>

definition online :: "handle \<Rightarrow> pool_state \<Rightarrow> pool_state" where
  "online h s =
     (case map_of (starting s) h of
        None \<Rightarrow> s
      | Some workerId \<Rightarrow>
          let s1 = s\<lparr>starting := filter (\<lambda>x. fst x \<noteq> h) (starting s)\<rparr>
          in if length (pool s1) < poolSize s1
             then s1\<lparr>pool := pool s1 @ [\<lparr>wo_id = workerId, wo_worker = h\<rparr>]\<rparr>
             else s1)"

text \<open>
  The constructor, after the module was loaded while \<^verbatim>\<open>os.freemem()\<close> was \<open>loadfree\<close>:
  the fields, \<^verbatim>\<open>initialMemory\<close> from what \<^verbatim>\<open>os.totalmem()\<close> and \<^verbatim>\<open>os.freemem()\<close>
  return now, then \<^verbatim>\<open>this.buildPool()\<close>, whose promise nobody awaits.
\<close>

definition unawaited :: "pool_state outcome \<Rightarrow> pool_state" where
  "unawaited r = (case r of Inr s \<Rightarrow> s | Inl (err, s) \<Rightarrow> emit (UnhandledRejection err) s)"

definition constructor ::
  "nat \<Rightarrow> bool \<Rightarrow> rat \<Rightarrow> nat \<Rightarrow> nat \<Rightarrow> nat \<Rightarrow> bool list \<Rightarrow> pool_state" where
  "constructor n rl thr loadfree totalmem freemem sp =
     unawaited (buildPool
       \<lparr>poolSize = n, memThreshold = thr, returnLog = rl, pool = [], minWorkers = None,
        initialMemory = int totalmem - int freemem,
        freeMemoryAvailable = megabytes loadfree, tasks = [], lastTaskTime = None,
        idleThreshold = 100, constructed = 0, built = [], starting = [], executing = [],
        awaiting = [], promises = 0, spawns = sp, effects = []\<rparr>)"

subsection \<open>\<^verbatim>\<open>executeWorker\<close>, \<^verbatim>\<open>createLog\<close>, \<^verbatim>\<open>runTask\<close>, \<^verbatim>\<open>run\<close>\<close>

text \<open>
  How \<^verbatim>\<open>run\<close> ends. In its \<^verbatim>\<open>catch\<close> the reply is \<^verbatim>\<open>{ status: err.status || 500, message }\<close>
  (a status of 0 is falsy; every message of the model is a non-empty text, so that
  \<^verbatim>\<open>err.message || 'something went wrong'\<close> is the message); the \<^verbatim>\<open>finally\<close> block calls
  \<^verbatim>\<open>terminateExcessWorkers\<close>, and then the promise resolves.
\<close>

definition run_return :: "call \<Rightarrow> reply \<Rightarrow> pool_state \<Rightarrow> pool_state" where
  "run_return c r s = emit (Return (c_promise c) r) (terminateExcessWorkers s)"

definition run_catch :: "call \<Rightarrow> js_error \<Rightarrow> pool_state \<Rightarrow> pool_state" where
  "run_catch c err s =
     run_return c
       (Failed (case err_status err of None \<Rightarrow> 500 | Some st \<Rightarrow> if st = 0 then 500 else st)
               (err_message err)) s"

text \<open>
  \<^verbatim>\<open>executeWorker\<close>, up to the point where its promise waits for the worker. The test
  \<^verbatim>\<open>!worker || typeof worker.on !== 'function'\<close> is false for every object of the pool. The
  two listeners are attached, then the task is posted; when \<^verbatim>\<open>postMessage\<close> throws the
  promise is rejected (\<open>Inl\<close>) and the listeners stay attached.
\<close>

definition executeWorker ::
  "workerObject \<Rightarrow> call \<Rightarrow> js_value \<Rightarrow> pool_state \<Rightarrow> pool_state outcome" where
  "executeWorker workerFromPool c memStats s =
     (let ex = \<lparr>ex_worker = workerFromPool, ex_call = c, ex_memStats = memStats,
                ex_settled = \<not> cloneable (c_task c)\<rparr>;
          s1 = s\<lparr>executing := executing s @ [ex]\<rparr>
      in if cloneable (c_task c)
         then Inr (emit (Post (wo_worker workerFromPool) (c_task c)) s1)
         else Inl (Error (FailedToPost (wo_id workerFromPool)), s1))"

definition createLog :: "nat \<Rightarrow> pool_state \<Rightarrow> log \<times> pool_state" where
  "createLog freeWorker_id s =
     (let s1 = s\<lparr>tasks := tasks s @ [freeWorker_id]\<rparr>
      in (\<lparr>log_worker = freeWorker_id, log_poolLength = length (pool s1),
            log_executed = length (tasks s1)\<rparr>, s1))"

text \<open>
  \<^verbatim>\<open>runTask\<close> from the head of its \<^verbatim>\<open>while\<close> loop up to its next \<^verbatim>\<open>await\<close>. With an empty
  pool it calls \<^verbatim>\<open>buildPool\<close> and is suspended (for ever, when \<^verbatim>\<open>buildPool\<close> never
  resolves). Otherwise it takes the first worker off the pool, then calls
  \<^verbatim>\<open>getMemPercent\<close> (\<open>freemem\<close> is what \<^verbatim>\<open>os.freemem()\<close> returns there), then
  \<^verbatim>\<open>executeWorker\<close>. An exception of either reaches the \<^verbatim>\<open>catch\<close> of \<^verbatim>\<open>run\<close>.
\<close>

definition runTask :: "call \<Rightarrow> nat \<Rightarrow> pool_state \<Rightarrow> pool_state" where
  "runTask c freemem s =
     (case pool s of
        [] \<Rightarrow>
          (case buildPool s of
             Inr s1 \<Rightarrow> s1\<lparr>awaiting := awaiting s1 @ [c]\<rparr>
           | Inl (err, s1) \<Rightarrow> emit (UnhandledRejection err) s1)
      | freeWorker # rest \<Rightarrow>
          let s1 = s\<lparr>pool := rest\<rparr>
          in (case getMemPercent freemem s1 of
                Inl err \<Rightarrow> run_catch c err s1
              | Inr memStats \<Rightarrow>
                  (case executeWorker freeWorker c memStats s1 of
                     Inl (err, s2) \<Rightarrow> run_catch c err s2
                   | Inr s2 \<Rightarrow> s2)))"

text \<open>\<^verbatim>\<open>run(task)\<close> up to its first \<^verbatim>\<open>await\<close>; \<open>now\<close> is \<^verbatim>\<open>Date.now()\<close>.\<close>

definition run :: "task \<Rightarrow> int \<Rightarrow> nat \<Rightarrow> pool_state \<Rightarrow> pool_state" where
  "run t now freemem s =
     (let (can, s1) = canExecuteTask now s;
          c = \<lparr>c_promise = promises s1, c_task = t, c_status = (if can then 200 else 429)\<rparr>
      in runTask c freemem (s1\<lparr>promises := Suc (promises s1)\<rparr>))"

text \<open>The oldest suspended \<^verbatim>\<open>runTask\<close> resumes after \<^verbatim>\<open>await this.buildPool()\<close>, at the
  head of its loop.\<close>

definition resume :: "nat \<Rightarrow> pool_state \<Rightarrow> pool_state" where
  "resume freemem s =
     (case awaiting s of
        [] \<Rightarrow> s
      | c # rest \<Rightarrow> runTask c freemem (s\<lparr>awaiting := rest\<rparr>))"

text \<open>
  The rest of \<^verbatim>\<open>runTask\<close> and of \<^verbatim>\<open>run\<close> once \<^verbatim>\<open>executeWorker\<close> has resolved with \<open>data\<close>,
  the message of the worker, taken to be an object (\<^verbatim>\<open>log\<close> and \<^verbatim>\<open>capacity\<close> are assigned
  to its properties).
\<close>

definition runTask_return :: "nat \<Rightarrow> execution \<Rightarrow> pool_state \<Rightarrow> pool_state" where
  "runTask_return data ex s =
     (let (lg, s1) = (if returnLog s
                      then (let (l, s') = createLog (wo_id (ex_worker ex)) s in (Some l, s'))
                      else (None, s));
          res = \<lparr>res_data = data, res_log = lg, res_capacity = ex_memStats ex\<rparr>
      in run_return (ex_call ex) (Completed (c_status (ex_call ex)) res) s1)"

text \<open>
  The two listeners of one execution. \<open>cleanup\<close> removes both. \<^verbatim>\<open>messageListener\<close>
  resolves the promise, puts the worker object back at the end of the pool if there is
  room, and cleans up; the code that awaited the promise runs after it.
  \<^verbatim>\<open>errorListener\<close> cleans up and rejects the promise. Resolving or rejecting a settled
  promise does nothing.
\<close>

definition cleanup :: "execution \<Rightarrow> pool_state \<Rightarrow> pool_state" where
  "cleanup ex s =
     s\<lparr>executing := filter (\<lambda>e. c_promise (ex_call e) \<noteq> c_promise (ex_call ex)) (executing s)\<rparr>"

definition messageListener :: "nat \<Rightarrow> execution \<Rightarrow> pool_state \<Rightarrow> pool_state" where
  "messageListener data ex s =
     (let s1 = (if length (pool s) < poolSize s
                then s\<lparr>pool := pool s @ [ex_worker ex]\<rparr> else s);
          s2 = cleanup ex s1
      in if ex_settled ex then s2 else runTask_return data ex s2)"

definition errorListener :: "execution \<Rightarrow> pool_state \<Rightarrow> pool_state" where
  "errorListener ex s =
     (let s1 = cleanup ex s
      in if ex_settled ex then s1
         else run_catch (ex_call ex) (Error (FailedDuringExecution (wo_id (ex_worker ex)))) s1)"

subsection \<open>The pool as a reactive system\<close>

text \<open>
  What can happen to a pool: a call of \<^verbatim>\<open>run(task)\<close>, with the clock and the free memory
  at that moment; a suspended \<^verbatim>\<open>runTask\<close> resuming, with the free memory; a worker
  posting a message; a worker emitting \<^verbatim>\<open>'error'\<close>; a call of \<^verbatim>\<open>addNewWorkerToPool\<close>; a
  worker of \<^verbatim>\<open>addNewWorkerToPool\<close> coming online; and \<^verbatim>\<open>terminateAllWorkers\<close>. The
  listeners of a worker run in the order they were attached: \<^verbatim>\<open>handleError\<close> of
  \<^verbatim>\<open>buildPool\<close> before the \<^verbatim>\<open>errorListener\<close> of an execution. The code that awaits
  a promise which a listener settles is run within the same event, after the listener.
  \<^verbatim>\<open>buildPool\<close> is not an event of its own: the program calls it from the constructor
  and from \<^verbatim>\<open>runTask\<close>, when the pool is empty. A suspended \<^verbatim>\<open>runTask\<close> resumes by
  itself, once the code that called \<^verbatim>\<open>run\<close> has returned and before any event of a
  worker; every order of the events is admitted here, which is more than Node can
  produce, and what holds of every sequence of events holds of those of the program.
\<close>

datatype event =
    Run task int nat
  | Resume nat
  | Message handle nat
  | WorkerError handle
  | AddNewWorker
  | Online handle
  | TerminateAll

definition listening :: "handle \<Rightarrow> pool_state \<Rightarrow> execution list" where
  "listening h s = filter (\<lambda>e. wo_worker (ex_worker e) = h) (executing s)"

definition step :: "event \<Rightarrow> pool_state \<Rightarrow> pool_state" where
  "step ev s =
     (case ev of
        Run t now freemem \<Rightarrow> run t now freemem s
      | Resume freemem \<Rightarrow> resume freemem s
      | Message h data \<Rightarrow> fold (messageListener data) (listening h s) s
      | WorkerError h \<Rightarrow>
          fold errorListener (listening h s)
            (case map_of (built s) h of
               None \<Rightarrow> s
             | Some workerId \<Rightarrow> emit (Console (ErrorIn workerId)) s)
      | AddNewWorker \<Rightarrow> state_of (addNewWorkerToPool s)
      | Online h \<Rightarrow> online h s
      | TerminateAll \<Rightarrow> terminateAllWorkers s)"

definition exec :: "event list \<Rightarrow> pool_state \<Rightarrow> pool_state" where
  "exec evs s = fold step evs s"

section \<open>Observations and invariants\<close>

subsection \<open>Reading the effects of the queue-based pool\<close>

text \<open>The calls of \<^verbatim>\<open>run\<close>, the entries taken from the queue and the tasks posted, each
  in the order it happened.\<close>

fun submitted :: "effect_q list \<Rightarrow> (promise \<times> task) list" where
  "submitted [] = []"
| "submitted (Submitted p t # es) = (p, t) # submitted es"
| "submitted (_ # es) = submitted es"

fun shifted :: "effect_q list \<Rightarrow> (promise \<times> task) list" where
  "shifted [] = []"
| "shifted (Shifted p t # es) = (p, t) # shifted es"
| "shifted (_ # es) = shifted es"

fun posted :: "effect_q list \<Rightarrow> task list" where
  "posted [] = []"
| "posted (Posted h t tid # es) = t # posted es"
| "posted (_ # es) = posted es"

text \<open>The promises settled, resolved or rejected, in order.\<close>

fun settled :: "effect_q list \<Rightarrow> promise list" where
  "settled [] = []"
| "settled (Resolved p r # es) = p # settled es"
| "settled (Rejected p err # es) = p # settled es"
| "settled (_ # es) = settled es"

text \<open>
  \<open>in_flight fl es\<close>: the workers that hold a task after the effects \<open>es\<close>, when those of
  \<open>fl\<close> held one before: a worker holds a task from the message posted to it until its
  busy flag is cleared. \<open>exclusive fl es\<close>: no message of \<open>es\<close> is posted to a worker
  that holds a task at that moment.
\<close>

fun in_flight :: "handle list \<Rightarrow> effect_q list \<Rightarrow> handle list" where
  "in_flight fl [] = fl"
| "in_flight fl (Posted h t tid # es) = in_flight (h # fl) es"
| "in_flight fl (Released h # es) = in_flight (removeAll h fl) es"
| "in_flight fl (_ # es) = in_flight fl es"

fun exclusive :: "handle list \<Rightarrow> effect_q list \<Rightarrow> bool" where
  "exclusive fl [] = True"
| "exclusive fl (Posted h t tid # es) = (h \<notin> set fl \<and> exclusive (h # fl) es)"
| "exclusive fl (Released h # es) = exclusive (removeAll h fl) es"
| "exclusive fl (_ # es) = exclusive fl es"

definition queued :: "pool_q_state \<Rightarrow> (promise \<times> task) list" where
  "queued s = map (\<lambda>e. (e_promise e, e_task e)) (taskQueue s)"

subsection \<open>Reading the effects of the pool of \<^verbatim>\<open>src/index.js\<close>\<close>

fun terminated :: "effect list \<Rightarrow> handle list" where
  "terminated [] = []"
| "terminated (Terminate h # es) = h # terminated es"
| "terminated (_ # es) = terminated es"

fun posts :: "effect list \<Rightarrow> (handle \<times> task) list" where
  "posts [] = []"
| "posts (Post h t # es) = (h, t) # posts es"
| "posts (_ # es) = posts es"

text \<open>
  The workers of the pool of \<^verbatim>\<open>src/index.js\<close>. \<^verbatim>\<open>runTask\<close> takes a worker off the
  array \<^verbatim>\<open>this.pool\<close> before it posts the task, and \<^verbatim>\<open>messageListener\<close> puts it back, so
  that the array holds the idle workers only. The busy ones are those that were posted a
  task and have not answered: the workers of the executions that wait; \<open>workers\<close> is
  the idle ones followed by the busy ones.
\<close>

definition busy_workers :: "pool_state \<Rightarrow> handle list" where
  "busy_workers s = map (\<lambda>e. wo_worker (ex_worker e)) (filter (\<lambda>e. \<not> ex_settled e) (executing s))"

definition workers :: "pool_state \<Rightarrow> handle list" where
  "workers s = map wo_worker (pool s) @ busy_workers s"

subsection \<open>Invariants\<close>

text \<open>The pool of \<^verbatim>\<open>src/index.js\<close> never holds more workers than \<open>poolSize\<close>,
  \<open>minWorkers\<close> stays undefined, and the free memory measured at load time and the
  threshold stay what they were.\<close>

definition inv :: "nat \<Rightarrow> rat \<Rightarrow> rat \<Rightarrow> pool_state \<Rightarrow> bool" where
  "inv n fma thr s \<longleftrightarrow>
     poolSize s = n \<and> length (pool s) \<le> n \<and> minWorkers s = None \<and>
     freeMemoryAvailable s = fma \<and> memThreshold s = thr"

text \<open>
  The queue-based pool while \<^verbatim>\<open>buildPool\<close> runs and after: at iteration \<open>i\<close> at most \<open>i\<close>
  workers are in the pool, at most \<open>i + 1\<close> were constructed and exactly one is
  starting; afterwards none is. At most \<open>poolSize\<close> workers are ever constructed.
\<close>

definition inv_size_q :: "nat \<Rightarrow> pool_q_state \<Rightarrow> bool" where
  "inv_size_q n s \<longleftrightarrow>
     poolSize_q s = n \<and> length (pool_q s) \<le> n \<and> length (workers_q s) \<le> n \<and>
     (case building_q s of
        Some (i, h) \<Rightarrow>
          i < n \<and> length (pool_q s) \<le> i \<and> length (workers_q s) \<le> Suc i \<and> starting_q s = [h]
      | None \<Rightarrow> starting_q s = [])"

text \<open>
  The workers of the queue-based pool are distinct and constructed, none of them is still
  starting, no worker that holds a task is still starting, and an idle worker holds
  no task.
\<close>

definition inv_busy_q :: "pool_q_state \<Rightarrow> bool" where
  "inv_busy_q s \<longleftrightarrow>
     distinct (map worker (pool_q s)) \<and>
     (\<forall>h \<in> set (map worker (pool_q s)). h < length (workers_q s) \<and> h \<notin> set (starting_q s)) \<and>
     (\<forall>h \<in> set (starting_q s). h < length (workers_q s)) \<and>
     (\<forall>h \<in> set (in_flight [] (effects_q s)). h < length (workers_q s) \<and> h \<notin> set (starting_q s)) \<and>
     (\<forall>h \<in> set (map worker (filter (\<lambda>w. \<not> busy w) (pool_q s))).
        h \<notin> set (in_flight [] (effects_q s))) \<and>
     exclusive [] (effects_q s)"

text \<open>Every task submitted was taken from the queue or is still in it, in the order of
  submission; the tasks posted are those taken from the queue that could be cloned.\<close>

definition inv_fifo_q :: "pool_q_state \<Rightarrow> bool" where
  "inv_fifo_q s \<longleftrightarrow>
     shifted (effects_q s) @ queued s = submitted (effects_q s) \<and>
     posted (effects_q s) = filter cloneable (map snd (shifted (effects_q s)))"

subsection \<open>The capacity check as the specification words it\<close>

text \<open>
  The specification's formula, \<^verbatim>\<open>(totalAvailable - currentlyFree) / totalAvailable\<close>, where
  \<^verbatim>\<open>totalAvailable\<close> is the total memory of the system. It is stated here to be compared
  with \<open>memPercent\<close>; no function of the program computes it.
\<close>

definition spec_memoryUsedPercent :: "rat \<Rightarrow> rat \<Rightarrow> rat" where
  "spec_memoryUsedPercent totalAvailable currentlyFree =
     (totalAvailable - currentlyFree) / totalAvailable"

subsection \<open>Concrete pools\<close>

definition mb :: "nat \<Rightarrow> nat" where
  "mb n = n * 1024 * 1024"

definition task1 :: task where
  "task1 = \<lparr>payload = 1, cloneable = True\<rparr>"

definition task2 :: task where
  "task2 = \<lparr>payload = 2, cloneable = True\<rparr>"

definition task3 :: task where
  "task3 = \<lparr>payload = 3, cloneable = True\<rparr>"

text \<open>A pool of \<^verbatim>\<open>src/index.js\<close> with two workers and the default threshold of 90, on a
  machine of 4000 MB of which 1000 MB were free when the module was loaded.\<close>

definition pool2 :: pool_state where
  "pool2 = constructor 2 True 90 (mb 1000) (mb 4000) (mb 1000) []"

text \<open>The same with one worker.\<close>

definition pool1 :: pool_state where
  "pool1 = constructor 1 True 90 (mb 1000) (mb 4000) (mb 1000) []"

text \<open>A queue-based pool of one worker, and one of three workers.\<close>

definition queue1 :: pool_q_state where
  "queue1 = constructor_q 1 True []"

definition queue3 :: "bool list \<Rightarrow> pool_q_state" where
  "queue3 sp = constructor_q 3 True sp"

text \<open>\<^verbatim>\<open>buildPool\<close> of the queue-based pool has returned, no worker is starting, and the
  workers constructed so far and the outcomes in store are \<open>W\<close> and \<open>sp\<close>.\<close>

definition build_over :: "(handle \<times> nat) list \<Rightarrow> bool list \<Rightarrow> pool_q_state \<Rightarrow> bool" where
  "build_over W sp s \<longleftrightarrow>
     building_q s = None \<and> starting_q s = [] \<and> workers_q s = W \<and> spawns_q s = sp"

text \<open>
  The pool after \<open>queue1_failed\<close>: its only worker is busy or gone, no message was posted
  but \<open>task1\<close>, no promise is settled, and every later submission is in the queue.
\<close>

definition stuck :: "pool_q_state \<Rightarrow> bool" where
  "stuck s \<longleftrightarrow>
     settled (effects_q s) = [] \<and> posted (effects_q s) = [task1] \<and>
     (\<forall>w \<in> set (pool_q s). busy w) \<and> map fst (workers_q s) = [0] \<and>
     starting_q s = [] \<and> building_q s = None \<and>
     take 1 (submitted (effects_q s)) = [(0, task1)] \<and>
     queued s = drop 1 (submitted (effects_q s))"

text \<open>The queue-based pool of one worker after the worker came online, took
  \<open>task1\<close> and emitted \<^verbatim>\<open>'error'\<close>.\<close>

definition queue1_failed :: pool_q_state where
  "queue1_failed =
     state_of (exec_q [Online_q 0, Run_q task1 None 10, WorkerError_q 0] queue1)"

text \<open>An event other than a message from worker \<open>h\<close>.\<close>

fun silent :: "handle \<Rightarrow> event_q \<Rightarrow> bool" where
  "silent h (Message_q h' r now) = (h' \<noteq> h)"
| "silent h _ = True"

section \<open>Properties of the pool of \<^verbatim>\<open>src/index.js\<close>\<close>

subsection \<open>The pool never outgrows \<open>poolSize\<close>\<close>

lemma terminateExcessWorkers_undefined:
  "minWorkers s = None \<Longrightarrow> terminateExcessWorkers s = s"
  by (subst terminateExcessWorkers.simps) simp

lemma fold_preserves:
  assumes "\<And>x s. P s \<Longrightarrow> P (f x s)" and "P s"
  shows "P (fold f xs s)"
  using assms(2) by (induction xs arbitrary: s) (simp_all add: assms(1))

lemma inv_buildPool_from:
  "poolSize s = n \<Longrightarrow> minWorkers s = None \<Longrightarrow> freeMemoryAvailable s = fma \<Longrightarrow>
   memThreshold s = thr \<Longrightarrow> length (pool s) \<le> i \<Longrightarrow> i \<le> n \<Longrightarrow>
   inv n fma thr (state_of (buildPool_from i s))"
proof (induction i s rule: buildPool_from.induct)
  case (1 i s)
  show ?case
  proof (cases "i < poolSize s")
    case False
    with "1.prems" show ?thesis
      by (subst buildPool_from.simps) (simp add: inv_def)
  next
    case less: True
    show ?thesis
    proof (cases "fst (new_Worker (spawns s))")
      case False
      with less "1.prems" show ?thesis
        by (subst buildPool_from.simps) (simp add: inv_def)
    next
      case True
      with less "1.IH" "1.prems" show ?thesis
        by (subst buildPool_from.simps) simp
    qed
  qed
qed

lemma inv_unawaited: "inv n fma thr (state_of r) \<Longrightarrow> inv n fma thr (unawaited r)"
  by (cases r) (auto simp: unawaited_def inv_def emit_def)

lemma inv_constructor: "inv n (megabytes lf) thr (constructor n rl thr lf tm fm sp)"
  unfolding constructor_def buildPool_def
  by (rule inv_unawaited, rule inv_buildPool_from) simp_all

lemma inv_run_return: "inv n fma thr s \<Longrightarrow> inv n fma thr (run_return c r s)"
  by (simp add: run_return_def inv_def terminateExcessWorkers_undefined emit_def)

lemma inv_run_catch: "inv n fma thr s \<Longrightarrow> inv n fma thr (run_catch c err s)"
  by (simp add: run_catch_def inv_run_return)

lemma inv_executeWorker: "inv n fma thr s \<Longrightarrow> inv n fma thr (state_of (executeWorker w c m s))"
  by (simp add: executeWorker_def inv_def emit_def Let_def)

lemma inv_runTask: "inv n fma thr s \<Longrightarrow> inv n fma thr (runTask c f s)"
proof (cases "pool s")
  case Nil
  assume i: "inv n fma thr s"
  then have "inv n fma thr (state_of (buildPool s))"
    unfolding buildPool_def using Nil by (intro inv_buildPool_from) (simp_all add: inv_def)
  with Nil show ?thesis
    by (cases "buildPool s") (auto simp: runTask_def inv_def emit_def)
next
  case (Cons freeWorker rest)
  assume i: "inv n fma thr s"
  then have i1: "inv n fma thr (s\<lparr>pool := rest\<rparr>)" using Cons by (simp add: inv_def)
  show ?thesis
  proof (cases "getMemPercent f (s\<lparr>pool := rest\<rparr>)")
    case (Inl err)
    with Cons i1 show ?thesis by (simp add: runTask_def inv_run_catch)
  next
    case (Inr memStats)
    from i1 have "inv n fma thr (state_of (executeWorker freeWorker c memStats (s\<lparr>pool := rest\<rparr>)))"
      by (rule inv_executeWorker)
    with Cons Inr show ?thesis
      by (cases "executeWorker freeWorker c memStats (s\<lparr>pool := rest\<rparr>)")
         (auto simp: runTask_def inv_run_catch)
  qed
qed

lemma inv_canExecuteTask: "inv n fma thr s \<Longrightarrow> inv n fma thr (snd (canExecuteTask now s))"
  by (simp add: canExecuteTask_def inv_def Let_def split: option.splits)

lemma inv_run: "inv n fma thr s \<Longrightarrow> inv n fma thr (run t now f s)"
proof -
  assume "inv n fma thr s"
  then have "inv n fma thr (snd (canExecuteTask now s))" by (rule inv_canExecuteTask)
  then have "inv n fma thr ((snd (canExecuteTask now s))\<lparr>promises := Suc (promises (snd (canExecuteTask now s)))\<rparr>)"
    by (simp add: inv_def)
  then show ?thesis
    by (simp add: run_def Let_def split_beta inv_runTask)
qed

lemma inv_resume: "inv n fma thr s \<Longrightarrow> inv n fma thr (resume f s)"
proof (cases "awaiting s")
  case Nil
  then show "inv n fma thr s \<Longrightarrow> ?thesis" by (simp add: resume_def)
next
  case (Cons c rest)
  assume "inv n fma thr s"
  then have "inv n fma thr (s\<lparr>awaiting := rest\<rparr>)" by (simp add: inv_def)
  with Cons show ?thesis by (simp add: resume_def inv_runTask)
qed

lemma inv_cleanup: "inv n fma thr s \<Longrightarrow> inv n fma thr (cleanup ex s)"
  by (simp add: cleanup_def inv_def)

lemma inv_runTask_return: "inv n fma thr s \<Longrightarrow> inv n fma thr (runTask_return d ex s)"
proof -
  assume i: "inv n fma thr s"
  then have "inv n fma thr (snd (createLog (wo_id (ex_worker ex)) s))"
    by (simp add: createLog_def inv_def Let_def)
  with i show ?thesis
    by (simp add: runTask_return_def Let_def split_beta inv_run_return)
qed

lemma inv_messageListener: "inv n fma thr s \<Longrightarrow> inv n fma thr (messageListener d ex s)"
proof -
  assume i: "inv n fma thr s"
  then have "inv n fma thr (if length (pool s) < poolSize s then s\<lparr>pool := pool s @ [ex_worker ex]\<rparr> else s)"
    by (auto simp: inv_def)
  then have "inv n fma thr (cleanup ex (if length (pool s) < poolSize s then s\<lparr>pool := pool s @ [ex_worker ex]\<rparr> else s))"
    by (rule inv_cleanup)
  then show ?thesis
    unfolding messageListener_def Let_def by (simp add: inv_runTask_return)
qed

lemma inv_errorListener: "inv n fma thr s \<Longrightarrow> inv n fma thr (errorListener ex s)"
  unfolding errorListener_def Let_def by (simp add: inv_cleanup inv_run_catch)

lemma inv_addNewWorkerToPool: "inv n fma thr s \<Longrightarrow> inv n fma thr (state_of (addNewWorkerToPool s))"
  by (simp add: addNewWorkerToPool_def inv_def)

lemma inv_online: "inv n fma thr s \<Longrightarrow> inv n fma thr (online h s)"
  by (auto simp: online_def inv_def Let_def split: option.splits)

lemma inv_terminateAllWorkers: "inv n fma thr s \<Longrightarrow> inv n fma thr (terminateAllWorkers s)"
proof (induction s rule: terminateAllWorkers.induct)
  case (1 s)
  show ?case
  proof (cases "length (pool s) > 0")
    case True
    from "1.prems" have "inv n fma thr (emit (Terminate (wo_worker (last (pool s)))) (s\<lparr>pool := butlast (pool s)\<rparr>))"
      by (auto simp: inv_def emit_def)
    with "1.IH"[OF True] True show ?thesis by (subst terminateAllWorkers.simps) simp
  next
    case False
    with "1.prems" show ?thesis by (subst terminateAllWorkers.simps) simp
  qed
qed

lemma inv_step: "inv n fma thr s \<Longrightarrow> inv n fma thr (step ev s)"
proof (cases ev)
  case (Run t now f)
  then show "inv n fma thr s \<Longrightarrow> ?thesis" by (simp add: step_def inv_run)
next
  case (Resume f)
  then show "inv n fma thr s \<Longrightarrow> ?thesis" by (simp add: step_def inv_resume)
next
  case (Message h d)
  assume "inv n fma thr s"
  then have "inv n fma thr (fold (messageListener d) (listening h s) s)"
    by (rule fold_preserves[rotated]) (rule inv_messageListener)
  with Message show ?thesis by (simp add: step_def)
next
  case (WorkerError h)
  assume "inv n fma thr s"
  then have "inv n fma thr (case map_of (built s) h of None \<Rightarrow> s | Some workerId \<Rightarrow> emit (Console (ErrorIn workerId)) s)"
    by (simp add: inv_def emit_def split: option.splits)
  then have "inv n fma thr (fold errorListener (listening h s)
       (case map_of (built s) h of None \<Rightarrow> s | Some workerId \<Rightarrow> emit (Console (ErrorIn workerId)) s))"
    by (rule fold_preserves[rotated]) (rule inv_errorListener)
  with WorkerError show ?thesis by (simp add: step_def)
next
  case AddNewWorker
  then show "inv n fma thr s \<Longrightarrow> ?thesis" by (simp add: step_def inv_addNewWorkerToPool)
next
  case (Online h)
  then show "inv n fma thr s \<Longrightarrow> ?thesis" by (simp add: step_def inv_online)
next
  case TerminateAll
  then show "inv n fma thr s \<Longrightarrow> ?thesis" by (simp add: step_def inv_terminateAllWorkers)
qed

lemma inv_exec: "inv n fma thr s \<Longrightarrow> inv n fma thr (exec evs s)"
  unfolding exec_def by (induction evs arbitrary: s) (simp_all add: inv_step)

lemma inv_reachable: "inv n (megabytes lf) thr (exec evs (constructor n rl thr lf tm fm sp))"
  by (rule inv_exec) (rule inv_constructor)

section \<open>Properties of the queue-based pool\<close>

subsection \<open>Effects and list updates\<close>

lemma submitted_append: "submitted (es @ es') = submitted es @ submitted es'"
  by (induction es rule: submitted.induct) simp_all

lemma shifted_append: "shifted (es @ es') = shifted es @ shifted es'"
  by (induction es rule: shifted.induct) simp_all

lemma posted_append: "posted (es @ es') = posted es @ posted es'"
  by (induction es rule: posted.induct) simp_all

lemma settled_append: "settled (es @ es') = settled es @ settled es'"
  by (induction es rule: settled.induct) simp_all

lemma in_flight_append: "in_flight fl (es @ es') = in_flight (in_flight fl es) es'"
  by (induction fl es rule: in_flight.induct) simp_all

lemma exclusive_append:
  "exclusive fl (es @ es') \<longleftrightarrow> exclusive fl es \<and> exclusive (in_flight fl es) es'"
  by (induction fl es rule: exclusive.induct) simp_all

lemma effects_fold_Terminated:
  "effects_q (fold (\<lambda>w. emit_q (Terminated (worker w))) ws s) =
     effects_q s @ map (\<lambda>w. Terminated (worker w)) ws"
  by (induction ws arbitrary: s) (simp_all add: emit_q_def)

lemma frame_fold_Terminated:
  "poolSize_q (fold (\<lambda>w. emit_q (Terminated (worker w))) ws s) = poolSize_q s"
  "taskQueue (fold (\<lambda>w. emit_q (Terminated (worker w))) ws s) = taskQueue s"
  "workers_q (fold (\<lambda>w. emit_q (Terminated (worker w))) ws s) = workers_q s"
  "starting_q (fold (\<lambda>w. emit_q (Terminated (worker w))) ws s) = starting_q s"
  "building_q (fold (\<lambda>w. emit_q (Terminated (worker w))) ws s) = building_q s"
  by (induction ws arbitrary: s) (simp_all add: emit_q_def)

lemma submitted_Terminated: "submitted (map (\<lambda>w. Terminated (worker w)) ws) = []"
  by (induction ws) simp_all

lemma shifted_Terminated: "shifted (map (\<lambda>w. Terminated (worker w)) ws) = []"
  by (induction ws) simp_all

lemma posted_Terminated: "posted (map (\<lambda>w. Terminated (worker w)) ws) = []"
  by (induction ws) simp_all

lemma in_flight_Terminated: "in_flight fl (map (\<lambda>w. Terminated (worker w)) ws) = fl"
  by (induction ws) simp_all

lemma exclusive_Terminated: "exclusive fl (map (\<lambda>w. Terminated (worker w)) ws)"
  by (induction ws) simp_all

lemma length_update_first [simp]: "length (update_first P f xs) = length xs"
  by (induction xs) simp_all

lemma find_SomeD: "find P xs = Some x \<Longrightarrow> x \<in> set xs \<and> P x"
  by (induction xs) (auto split: if_splits)

lemma map_worker_update_first:
  "(\<And>w. worker (f w) = worker w) \<Longrightarrow> map worker (update_first P f xs) = map worker xs"
  by (induction xs) simp_all

lemma idle_update_first_same:
  "(\<And>w. worker (f w) = worker w) \<Longrightarrow> (\<And>w. busy (f w) = busy w) \<Longrightarrow>
   map worker (filter (\<lambda>w. \<not> busy w) (update_first P f xs)) =
   map worker (filter (\<lambda>w. \<not> busy w) xs)"
  by (induction xs) simp_all

lemma idle_update_first_assign:
  "distinct (map worker xs) \<Longrightarrow> find (\<lambda>w. \<not> busy w) xs = Some x \<Longrightarrow>
   (\<And>w. worker (f w) = worker w) \<Longrightarrow> (\<And>w. busy (f w)) \<Longrightarrow>
   set (map worker (filter (\<lambda>w. \<not> busy w) (update_first (\<lambda>w. \<not> busy w) f xs)))
     \<subseteq> set (map worker (filter (\<lambda>w. \<not> busy w) xs)) - {worker x}"
proof (induction xs)
  case Nil
  then show ?case by simp
next
  case (Cons a as)
  show ?case
  proof (cases "busy a")
    case True
    with Cons show ?thesis by auto
  next
    case False
    with Cons.prems have "x = a" by simp
    moreover from Cons.prems have "worker a \<notin> worker ` set as" by simp
    then have "\<And>w. w \<in> set as \<Longrightarrow> worker w \<noteq> worker a" by (metis imageI)
    ultimately show ?thesis using False Cons.prems(3,4) by auto
  qed
qed

lemma idle_update_first_release:
  "(\<And>w. worker (f w) = worker w) \<Longrightarrow>
   set (map worker (filter (\<lambda>w. \<not> busy w) (update_first (\<lambda>w. worker w = h) f xs)))
     \<subseteq> insert h (set (map worker (filter (\<lambda>w. \<not> busy w) xs)))"
  by (induction xs) auto

lemma frame_addWorkerToPool:
  "taskQueue (state_of (addWorkerToPool s)) = taskQueue s"
  "effects_q (state_of (addWorkerToPool s)) = effects_q s"
  "poolSize_q (state_of (addWorkerToPool s)) = poolSize_q s"
  "pool_q (state_of (addWorkerToPool s)) = pool_q s"
  "building_q (state_of (addWorkerToPool s)) = building_q s"
  by (simp_all add: addWorkerToPool_def Let_def)

lemma frame_buildPool_from_q:
  "taskQueue (buildPool_from_q i s) = taskQueue s"
  "poolSize_q (buildPool_from_q i s) = poolSize_q s"
  "pool_q (buildPool_from_q i s) = pool_q s"
  "submitted (effects_q (buildPool_from_q i s)) = submitted (effects_q s)"
  "shifted (effects_q (buildPool_from_q i s)) = shifted (effects_q s)"
  "posted (effects_q (buildPool_from_q i s)) = posted (effects_q s)"
  "in_flight fl (effects_q (buildPool_from_q i s)) = in_flight fl (effects_q s)"
  "exclusive fl (effects_q (buildPool_from_q i s)) = exclusive fl (effects_q s)"
  by (simp_all add: buildPool_from_q_def addWorkerToPool_def Let_def emit_q_def
      submitted_append shifted_append posted_append in_flight_append exclusive_append)

lemma step_q_preserves:
  assumes "\<And>t tid now s. P s \<Longrightarrow> P (run_q t tid now s)"
    and "\<And>h s. P s \<Longrightarrow> P (online_q h s)"
    and "\<And>h r k now s. P s \<Longrightarrow> P (state_of (handleWorkerResult h r k now s))"
    and "\<And>m s. P s \<Longrightarrow> P (emit_q (ConsoleError m) s)"
    and "\<And>s. P s \<Longrightarrow> P (terminateAllWorkers_q s)"
    and "P s"
  shows "P (state_of (step_q ev s))"
  by (cases ev) (simp_all add: assms split: option.splits)

lemma exec_q_induct_inv:
  assumes step: "\<And>ev s. P s \<Longrightarrow> P (state_of (step_q ev s))" and "P s"
  shows "P (state_of (exec_q evs s))"
  using assms(2)
proof (induction evs arbitrary: s)
  case Nil
  then show ?case by simp
next
  case (Cons ev evs)
  show ?case
  proof (cases "step_q ev s")
    case (Inl x)
    with step[OF Cons.prems, of ev] show ?thesis by (cases x) simp
  next
    case (Inr s')
    with step[OF Cons.prems, of ev] Cons.IH show ?thesis by simp
  qed
qed

subsection \<open>The queue is first in, first out\<close>

lemma fifo_assignTasks: "inv_fifo_q s \<Longrightarrow> inv_fifo_q (state_of (assignTasks now s))"
  by (auto simp: assignTasks_def inv_fifo_q_def queued_def emit_q_def Let_def
      submitted_append shifted_append posted_append
      split: option.splits list.splits)

lemma fifo_run_q: "inv_fifo_q s \<Longrightarrow> inv_fifo_q (run_q t tid now s)"
proof -
  assume i: "inv_fifo_q s"
  let ?s1 = "emit_q (Submitted (promises_q s) t)
               (s\<lparr>promises_q := Suc (promises_q s),
                  taskQueue := taskQueue s @ [\<lparr>e_task = t, e_taskId = tid, e_promise = promises_q s\<rparr>]\<rparr>)"
  from i have "inv_fifo_q ?s1"
    by (simp add: inv_fifo_q_def queued_def emit_q_def submitted_append shifted_append posted_append)
  then have "inv_fifo_q (state_of (assignTasks now ?s1))" by (rule fifo_assignTasks)
  then show ?thesis
    by (cases "assignTasks now ?s1")
       (auto simp: run_q_def Let_def inv_fifo_q_def queued_def emit_q_def
          submitted_append shifted_append posted_append)
qed

lemma fifo_handleWorkerResult:
  "inv_fifo_q s \<Longrightarrow> inv_fifo_q (state_of (handleWorkerResult h r k now s))"
proof (cases "find (\<lambda>w. worker w = h) (pool_q s)")
  case None
  then show "inv_fifo_q s \<Longrightarrow> ?thesis" by (simp add: handleWorkerResult_def)
next
  case (Some workerItem)
  assume i: "inv_fifo_q s"
  then have "inv_fifo_q s2" if "s2 = (case resolve workerItem of None \<Rightarrow> s1 | Some p \<Rightarrow>
       (emit_q (Resolved p resp) s1)\<lparr>pool_q := pl\<rparr>)"
       "s1 = emit_q (Released h) (s\<lparr>pool_q := pl'\<rparr>)" for s1 s2 resp pl pl'
    using that
    by (simp add: inv_fifo_q_def queued_def emit_q_def submitted_append shifted_append posted_append
        split: option.splits)
  then show ?thesis using Some
    unfolding handleWorkerResult_def Let_def
    by (simp add: fifo_assignTasks)
qed

lemma fifo_frame:
  "taskQueue s' = taskQueue s \<Longrightarrow> effects_q s' = effects_q s \<Longrightarrow> inv_fifo_q s \<Longrightarrow> inv_fifo_q s'"
  by (simp add: inv_fifo_q_def queued_def)

lemma fifo_buildPool_from_q: "inv_fifo_q s \<Longrightarrow> inv_fifo_q (buildPool_from_q i s)"
  by (simp add: inv_fifo_q_def queued_def frame_buildPool_from_q)

lemma fifo_online_q: "inv_fifo_q s \<Longrightarrow> inv_fifo_q (online_q h s)"
proof -
  assume i: "inv_fifo_q s"
  have "inv_fifo_q (s\<lparr>starting_q := st, pool_q := pl\<rparr>)" for st pl
    using i by (simp add: inv_fifo_q_def queued_def)
  then show ?thesis using i
    by (simp add: online_q_def Let_def fifo_buildPool_from_q split: option.splits prod.splits)
qed

lemma fifo_terminateAllWorkers_q: "inv_fifo_q s \<Longrightarrow> inv_fifo_q (terminateAllWorkers_q s)"
  by (simp add: inv_fifo_q_def queued_def terminateAllWorkers_q_def effects_fold_Terminated
      frame_fold_Terminated submitted_append shifted_append posted_append
      submitted_Terminated shifted_Terminated posted_Terminated)

lemma fifo_ConsoleError: "inv_fifo_q s \<Longrightarrow> inv_fifo_q (emit_q (ConsoleError m) s)"
  by (simp add: inv_fifo_q_def queued_def emit_q_def submitted_append shifted_append posted_append)

lemma fifo_step_q: "inv_fifo_q s \<Longrightarrow> inv_fifo_q (state_of (step_q ev s))"
  by (rule step_q_preserves)
     (simp_all add: fifo_run_q fifo_online_q fifo_handleWorkerResult fifo_terminateAllWorkers_q
        fifo_ConsoleError)

lemma fifo_constructor_q: "inv_fifo_q (constructor_q n rl sp)"
  unfolding constructor_q_def buildPool_q_def
  by (rule fifo_buildPool_from_q) (simp add: inv_fifo_q_def queued_def)

lemma fifo_reachable: "inv_fifo_q (state_of (exec_q evs (constructor_q n rl sp)))"
  by (rule exec_q_induct_inv) (rule fifo_step_q, assumption, rule fifo_constructor_q)

subsection \<open>The pool never outgrows \<open>poolSize_q\<close>\<close>

lemma size_frame:
  "poolSize_q s' = poolSize_q s \<Longrightarrow> length (pool_q s') = length (pool_q s) \<Longrightarrow>
   building_q s' = building_q s \<Longrightarrow> starting_q s' = starting_q s \<Longrightarrow>
   workers_q s' = workers_q s \<Longrightarrow>
   inv_size_q n s \<Longrightarrow> inv_size_q n s'"
  by (auto simp: inv_size_q_def split: option.splits)

lemma size_assignTasks: "inv_size_q n s \<Longrightarrow> inv_size_q n (state_of (assignTasks now s))"
  by (rule size_frame)
     (simp_all add: assignTasks_def Let_def emit_q_def split: option.splits list.splits)

lemma size_run_q: "inv_size_q n s \<Longrightarrow> inv_size_q n (run_q t tid now s)"
proof -
  assume i: "inv_size_q n s"
  let ?s1 = "emit_q (Submitted (promises_q s) t)
               (s\<lparr>promises_q := Suc (promises_q s),
                  taskQueue := taskQueue s @ [\<lparr>e_task = t, e_taskId = tid, e_promise = promises_q s\<rparr>]\<rparr>)"
  from i have "inv_size_q n ?s1" by (rule size_frame[rotated -1]) (simp_all add: emit_q_def)
  then have "inv_size_q n (state_of (assignTasks now ?s1))" by (rule size_assignTasks)
  then show ?thesis
    by (cases "assignTasks now ?s1")
       (auto simp: run_q_def Let_def emit_q_def elim: size_frame[rotated -1])
qed

lemma size_handleWorkerResult:
  "inv_size_q n s \<Longrightarrow> inv_size_q n (state_of (handleWorkerResult h r k now s))"
proof (cases "find (\<lambda>w. worker w = h) (pool_q s)")
  case None
  then show "inv_size_q n s \<Longrightarrow> ?thesis" by (simp add: handleWorkerResult_def)
next
  case (Some workerItem)
  assume i: "inv_size_q n s"
  then have "inv_size_q n s2" if "s2 = (case resolve workerItem of None \<Rightarrow> s1 | Some p \<Rightarrow>
       (emit_q (Resolved p resp) s1)\<lparr>pool_q := update_first Q g (pool_q s1)\<rparr>)"
       "s1 = emit_q (Released h) (s\<lparr>pool_q := update_first Q' g' (pool_q s)\<rparr>)" for s1 s2 resp Q g Q' g'
    using that by (intro size_frame[OF _ _ _ _ _ i]) (simp_all add: emit_q_def split: option.splits)
  then show ?thesis using Some
    unfolding handleWorkerResult_def Let_def
    by (simp add: size_assignTasks)
qed

lemma size_buildPool_from_q:
  "poolSize_q s = n \<Longrightarrow> length (pool_q s) \<le> i \<Longrightarrow> length (workers_q s) \<le> i \<Longrightarrow> i \<le> n \<Longrightarrow>
   starting_q s = [] \<Longrightarrow> inv_size_q n (buildPool_from_q i s)"
  by (simp add: buildPool_from_q_def addWorkerToPool_def Let_def emit_q_def inv_size_q_def)

lemma size_online_q: "inv_size_q n s \<Longrightarrow> inv_size_q n (online_q h s)"
proof (cases "h \<in> set (starting_q s) \<and> map_of (workers_q s) h \<noteq> None")
  case False
  then show "inv_size_q n s \<Longrightarrow> ?thesis" by (auto simp: online_q_def)
next
  case True
  assume i: "inv_size_q n s"
  from True obtain workerId where w: "map_of (workers_q s) h = Some workerId" by auto
  from True i obtain j where b: "building_q s = Some (j, h)" "j < n" "length (pool_q s) \<le> j"
    "length (workers_q s) \<le> Suc j" "starting_q s = [h]"
    by (cases "building_q s") (auto simp: inv_size_q_def)
  let ?s1 = "s\<lparr>starting_q := removeAll h (starting_q s),
               pool_q := pool_q s @ [\<lparr>wid = workerId, worker = h, busy = False, resolve = None,
                               reject = None, startTime = None, taskId = None\<rparr>]\<rparr>"
  have "inv_size_q n (buildPool_from_q (Suc j) ?s1)"
    using b i by (intro size_buildPool_from_q) (simp_all add: inv_size_q_def)
  with True w b show ?thesis by (simp add: online_q_def Let_def)
qed

lemma size_terminateAllWorkers_q: "inv_size_q n s \<Longrightarrow> inv_size_q n (terminateAllWorkers_q s)"
  by (auto simp: inv_size_q_def terminateAllWorkers_q_def frame_fold_Terminated
      split: option.splits)

lemma size_ConsoleError: "inv_size_q n s \<Longrightarrow> inv_size_q n (emit_q (ConsoleError m) s)"
  by (rule size_frame[rotated -1]) (simp_all add: emit_q_def)

lemma size_step_q: "inv_size_q n s \<Longrightarrow> inv_size_q n (state_of (step_q ev s))"
  by (rule step_q_preserves)
     (simp_all add: size_run_q size_online_q size_handleWorkerResult size_terminateAllWorkers_q
        size_ConsoleError)

lemma size_constructor_q: "inv_size_q n (constructor_q n rl sp)"
  unfolding constructor_q_def buildPool_q_def
  by (rule size_buildPool_from_q) simp_all

lemma size_reachable: "inv_size_q n (state_of (exec_q evs (constructor_q n rl sp)))"
  by (rule exec_q_induct_inv) (rule size_step_q, assumption, rule size_constructor_q)

subsection \<open>An idle worker holds no task\<close>

lemma busy_frame:
  assumes "inv_busy_q s"
    and "map worker (pool_q s') = map worker (pool_q s)"
    and "map worker (filter (\<lambda>w. \<not> busy w) (pool_q s')) = map worker (filter (\<lambda>w. \<not> busy w) (pool_q s))"
    and "length (workers_q s') = length (workers_q s)"
    and "starting_q s' = starting_q s"
    and "in_flight [] (effects_q s') = in_flight [] (effects_q s)"
    and "exclusive [] (effects_q s') = exclusive [] (effects_q s)"
  shows "inv_busy_q s'"
  using assms unfolding inv_busy_q_def by simp

lemma busy_assignTasks: "inv_busy_q s \<Longrightarrow> inv_busy_q (state_of (assignTasks now s))"
proof (cases "find (\<lambda>w. \<not> busy w) (pool_q s)")
  case None
  then show "inv_busy_q s \<Longrightarrow> ?thesis" by (simp add: assignTasks_def)
next
  case (Some freeWorker)
  assume i: "inv_busy_q s"
  show ?thesis
  proof (cases "taskQueue s")
    case Nil
    with Some i show ?thesis by (simp add: assignTasks_def)
  next
    case (Cons e rest)
    define mark where "mark = (\<lambda>w::workerItem. w\<lparr>busy := True, resolve := Some (e_promise e),
                                      startTime := Some now, taskId := e_taskId e\<rparr>)"
    define pool' where "pool' = update_first (\<lambda>w. \<not> busy w) mark (pool_q s)"
    define h where "h = worker freeWorker"
    have mw: "map worker pool' = map worker (pool_q s)"
      unfolding pool'_def by (rule map_worker_update_first) (simp add: mark_def)
    from i have d: "distinct (map worker (pool_q s))" by (simp add: inv_busy_q_def)
    have idle: "set (map worker (filter (\<lambda>w. \<not> busy w) pool'))
                  \<subseteq> set (map worker (filter (\<lambda>w. \<not> busy w) (pool_q s))) - {h}"
      unfolding pool'_def h_def
      by (rule idle_update_first_assign[OF d Some]) (simp_all add: mark_def)
    from find_SomeD[OF Some] have hin: "h \<in> set (map worker (filter (\<lambda>w. \<not> busy w) (pool_q s)))"
      by (auto simp: h_def)
    then have hpool: "h \<in> set (map worker (pool_q s))" by auto
    from hin i have hfree: "h \<notin> set (in_flight [] (effects_q s))"
      unfolding inv_busy_q_def by blast
    let ?s1 = "emit_q (Shifted (e_promise e) (e_task e)) (s\<lparr>taskQueue := rest, pool_q := pool'\<rparr>)"
    have s1: "inv_busy_q ?s1"
      using i mw idle hfree unfolding inv_busy_q_def
      by (auto simp: emit_q_def in_flight_append exclusive_append)
    have s2: "inv_busy_q (emit_q (Posted h (e_task e) (e_taskId e)) ?s1)"
      using i mw idle hfree hpool unfolding inv_busy_q_def
      by (auto simp: emit_q_def in_flight_append exclusive_append)
    have "assignTasks now s =
            (if cloneable (e_task e) then Inr (emit_q (Posted h (e_task e) (e_taskId e)) ?s1)
             else Inl (DataCloneError, ?s1))"
      using Some Cons by (simp add: assignTasks_def Let_def pool'_def mark_def h_def)
    with s1 s2 show ?thesis by simp
  qed
qed

lemma busy_run_q: "inv_busy_q s \<Longrightarrow> inv_busy_q (run_q t tid now s)"
proof -
  assume i: "inv_busy_q s"
  let ?s1 = "emit_q (Submitted (promises_q s) t)
               (s\<lparr>promises_q := Suc (promises_q s),
                  taskQueue := taskQueue s @ [\<lparr>e_task = t, e_taskId = tid, e_promise = promises_q s\<rparr>]\<rparr>)"
  have "inv_busy_q ?s1"
    by (rule busy_frame[OF i]) (simp_all add: emit_q_def in_flight_append exclusive_append)
  then have a: "inv_busy_q (state_of (assignTasks now ?s1))" by (rule busy_assignTasks)
  show ?thesis
  proof (cases "assignTasks now ?s1")
    case (Inr s2)
    with a show ?thesis by (simp add: run_q_def Let_def)
  next
    case (Inl x)
    obtain err s2 where x: "x = (err, s2)" by (cases x)
    with a Inl have "inv_busy_q s2" by simp
    then have "inv_busy_q (emit_q (Rejected (promises_q s) err) s2)"
      by (rule busy_frame) (simp_all add: emit_q_def in_flight_append exclusive_append)
    with Inl x show ?thesis by (simp add: run_q_def Let_def)
  qed
qed

lemma busy_handleWorkerResult:
  "inv_busy_q s \<Longrightarrow> inv_busy_q (state_of (handleWorkerResult h r k now s))"
proof (cases "find (\<lambda>w. worker w = h) (pool_q s)")
  case None
  then show "inv_busy_q s \<Longrightarrow> ?thesis" by (simp add: handleWorkerResult_def)
next
  case (Some workerItem)
  assume i: "inv_busy_q s"
  define pool1 where "pool1 = update_first (\<lambda>w. worker w = h) (\<lambda>w. w\<lparr>busy := False\<rparr>) (pool_q s)"
  define s1 where "s1 = emit_q (Released h) (s\<lparr>pool_q := pool1\<rparr>)"
  have mw: "map worker pool1 = map worker (pool_q s)"
    unfolding pool1_def by (rule map_worker_update_first) simp
  have idle: "set (map worker (filter (\<lambda>w. \<not> busy w) pool1))
                \<subseteq> insert h (set (map worker (filter (\<lambda>w. \<not> busy w) (pool_q s))))"
    unfolding pool1_def by (rule idle_update_first_release) simp
  have i1: "inv_busy_q s1"
    using i mw idle unfolding inv_busy_q_def s1_def
    by (auto simp: emit_q_def in_flight_append exclusive_append)
  define s2 where "s2 = (case resolve workerItem of
                      None \<Rightarrow> s1
                    | Some p \<Rightarrow>
                        let response = \<lparr>r_result = r,
                              r_log = (if returnLog_q s
                                       then Some \<lparr>l_workerId = k, l_messageListenerCount = 1,
                                                  l_taskId = taskId workerItem,
                                                  l_executionTime = map_option (\<lambda>t. now - t) (startTime workerItem)\<rparr>
                                       else None)\<rparr>
                        in (emit_q (Resolved p response) s1)
                             \<lparr>pool_q := update_first (\<lambda>w. worker w = h)
                                 (\<lambda>w. w\<lparr>resolve := None, reject := None\<rparr>) (pool_q s1)\<rparr>)"
  have i2: "inv_busy_q s2"
  proof (cases "resolve workerItem")
    case None
    with i1 show ?thesis by (simp add: s2_def)
  next
    case (Some p)
    show ?thesis unfolding s2_def Some option.case Let_def
      by (rule busy_frame[OF i1])
         (simp_all add: emit_q_def in_flight_append exclusive_append
            map_worker_update_first idle_update_first_same)
  qed
  have "handleWorkerResult h r k now s = assignTasks now s2"
    using Some unfolding handleWorkerResult_def s2_def s1_def pool1_def Let_def by simp
  with i2 show ?thesis by (simp add: busy_assignTasks)
qed

lemma busy_buildPool_from_q: "inv_busy_q s \<Longrightarrow> inv_busy_q (buildPool_from_q i s)"
  unfolding inv_busy_q_def
  by (auto simp: buildPool_from_q_def addWorkerToPool_def Let_def emit_q_def
      in_flight_append exclusive_append less_Suc_eq)

lemma busy_online_q: "inv_busy_q s \<Longrightarrow> inv_busy_q (online_q h s)"
proof (cases "h \<in> set (starting_q s) \<and> map_of (workers_q s) h \<noteq> None")
  case False
  then show "inv_busy_q s \<Longrightarrow> ?thesis" by (auto simp: online_q_def)
next
  case True
  assume i: "inv_busy_q s"
  from True obtain workerId where w: "map_of (workers_q s) h = Some workerId" by auto
  define s1 where "s1 = s\<lparr>starting_q := removeAll h (starting_q s),
               pool_q := pool_q s @ [\<lparr>wid = workerId, worker = h, busy = False, resolve = None,
                               reject = None, startTime = None, taskId = None\<rparr>]\<rparr>"
  from True have hs: "h \<in> set (starting_q s)" by simp
  have i1: "inv_busy_q s1"
    using i hs unfolding inv_busy_q_def s1_def by auto
  have "online_q h s = s1 \<or> (\<exists>j. online_q h s = buildPool_from_q j s1)"
    using True w by (auto simp: online_q_def Let_def s1_def split: option.splits)
  with i1 show ?thesis by (auto simp: busy_buildPool_from_q)
qed

lemma busy_terminateAllWorkers_q: "inv_busy_q s \<Longrightarrow> inv_busy_q (terminateAllWorkers_q s)"
  unfolding inv_busy_q_def
  by (simp add: terminateAllWorkers_q_def effects_fold_Terminated frame_fold_Terminated
      in_flight_append exclusive_append in_flight_Terminated exclusive_Terminated)

lemma busy_ConsoleError: "inv_busy_q s \<Longrightarrow> inv_busy_q (emit_q (ConsoleError m) s)"
  by (rule busy_frame) (simp_all add: emit_q_def in_flight_append exclusive_append)

lemma busy_step_q: "inv_busy_q s \<Longrightarrow> inv_busy_q (state_of (step_q ev s))"
  by (rule step_q_preserves)
     (simp_all add: busy_run_q busy_online_q busy_handleWorkerResult busy_terminateAllWorkers_q
        busy_ConsoleError)

lemma busy_constructor_q: "inv_busy_q (constructor_q n rl sp)"
  unfolding constructor_q_def buildPool_q_def
  by (rule busy_buildPool_from_q) (simp add: inv_busy_q_def)

lemma busy_reachable: "inv_busy_q (state_of (exec_q evs (constructor_q n rl sp)))"
  by (rule exec_q_induct_inv) (rule busy_step_q, assumption, rule busy_constructor_q)

section \<open>The arithmetic of doubles\<close>

text \<open>
  \<open>binade\<close> is the binary exponent, the significand that \<open>double\<close> computes has 53 bits,
  and \<open>double x\<close> is within half a unit in the last place of \<open>x\<close>: \<open>double\<close> rounds to a
  nearest double. It never rounds a number to zero.
\<close>

lemma bit_length_bounds: "n < 2 ^ bit_length n \<and> (0 < n \<longrightarrow> 2 ^ (bit_length n - 1) \<le> n)"
proof (induction n rule: bit_length.induct)
  case (1 n)
  show ?case
  proof (cases "n = 0")
    case True
    then show ?thesis by (subst bit_length.simps) simp
  next
    case False
    with "1" have ih: "n div 2 < 2 ^ bit_length (n div 2)"
      "0 < n div 2 \<longrightarrow> 2 ^ (bit_length (n div 2) - 1) \<le> n div 2" by auto
    have b: "bit_length n = Suc (bit_length (n div 2))"
      using False by (subst bit_length.simps) simp
    from ih(1) have u: "n < 2 ^ bit_length n" unfolding b by simp
    have l: "2 ^ (bit_length n - 1) \<le> n"
    proof (cases "n div 2 = 0")
      case True
      then have "bit_length (n div 2) = 0" by (subst bit_length.simps) simp
      with False show ?thesis unfolding b by simp
    next
      case nz: False
      then have "bit_length (n div 2) = Suc (bit_length (n div 2 div 2))"
        by (subst bit_length.simps) simp
      then obtain k where k: "bit_length (n div 2) = Suc k" by blast
      with ih(2) nz have "2 ^ k \<le> n div 2" by simp
      then have "2 * 2 ^ k \<le> n" by simp
      then show ?thesis unfolding b k by simp
    qed
    from u l show ?thesis by simp
  qed
qed


lemma round_half_even_nearest: "\<bar>of_int (round_half_even m) - m\<bar> \<le> 1 / 2"
proof -
  have f: "of_int \<lfloor>m\<rfloor> \<le> m" "m < of_int \<lfloor>m\<rfloor> + 1" by linarith+
  consider "m - of_int \<lfloor>m\<rfloor> < 1 / 2" | "1 / 2 < m - of_int \<lfloor>m\<rfloor>"
    | "m - of_int \<lfloor>m\<rfloor> = 1 / 2" by linarith
  then show ?thesis
  proof cases
    case 1
    then have "round_half_even m = \<lfloor>m\<rfloor>" by (simp add: round_half_even_def Let_def)
    with 1 f show ?thesis by linarith
  next
    case 2
    then have "round_half_even m = \<lfloor>m\<rfloor> + 1" by (simp add: round_half_even_def Let_def)
    with 2 f show ?thesis by simp
  next
    case 3
    then have "round_half_even m = \<lfloor>m\<rfloor> \<or> round_half_even m = \<lfloor>m\<rfloor> + 1"
      by (simp add: round_half_even_def Let_def)
    with 3 f show ?thesis by auto
  qed
qed

lemma bit_length_rat:
  assumes "0 < n" and "bit_length n = Suc k"
  shows "(2::rat) ^ k \<le> of_nat n" and "(of_nat n :: rat) + 1 \<le> 2 ^ Suc k"
proof -
  from bit_length_bounds[of n] assms have a: "2 ^ k \<le> n" and b: "Suc n \<le> 2 ^ Suc k" by auto
  from a have "(of_nat (2 ^ k) :: rat) \<le> of_nat n" by (rule of_nat_mono)
  then show "(2::rat) ^ k \<le> of_nat n" by simp
  from b have "(of_nat (Suc n) :: rat) \<le> of_nat (2 ^ Suc k)" by (rule of_nat_mono)
  then show "(of_nat n :: rat) + 1 \<le> 2 ^ Suc k" by simp
qed

lemma pow2_nat: "pow2 (int k) = 2 ^ k" "pow2 (- int k) = 1 / 2 ^ k"
  by (simp_all add: pow2_def)

lemma binade_bounds:
  assumes "0 < x"
  shows "pow2 (binade x) \<le> x \<and> x < pow2 (binade x + 1)"
proof (cases "1 \<le> x")
  case True
  define n where "n = nat \<lfloor>x\<rfloor>"
  from True have n: "0 < n" "of_nat n \<le> x" "x < of_nat n + 1"
    by (simp_all add: n_def) linarith+
  from n(1) have "bit_length n \<noteq> 0" by (subst bit_length.simps) simp
  then obtain k where k: "bit_length n = Suc k" by (cases "bit_length n") auto
  note bit_length_rat[OF n(1) k]
  with n have "2 ^ k \<le> x" "x < 2 ^ Suc k" by linarith+
  moreover have "binade x = int k" using True k by (simp add: binade_def n_def)
  moreover have "int k + 1 = int (Suc k)" by simp
  ultimately show ?thesis by (simp only: pow2_nat)
next
  case False
  with assms have y: "1 < 1 / x" by simp
  define n where "n = nat (\<lceil>1 / x\<rceil> - 1)"
  from y have c: "2 \<le> \<lceil>1 / x\<rceil>" by linarith
  then have n: "0 < n" "of_nat n < 1 / x" "1 / x \<le> of_nat n + 1"
    by (simp_all add: n_def) linarith+
  from n(1) have "bit_length n \<noteq> 0" by (subst bit_length.simps) simp
  then obtain k where k: "bit_length n = Suc k" by (cases "bit_length n") auto
  note bit_length_rat[OF n(1) k]
  with n have b: "2 ^ k < 1 / x" "1 / x \<le> 2 ^ Suc k" by linarith+
  from b(2) assms have "1 / 2 ^ Suc k \<le> x"
    by (simp add: field_simps)
  moreover from b(1) assms have "x < 1 / 2 ^ k"
    by (simp add: field_simps)
  moreover have "binade x = - int (Suc k)" using False k by (simp add: binade_def n_def)
  moreover have "- int (Suc k) + 1 = - int k" by simp
  ultimately show ?thesis by (simp only: pow2_nat)
qed



lemma pow2_power_int: "pow2 e = power_int 2 e"
  by (simp add: pow2_def power_int_def field_simps)

lemma pow2_pos: "0 < pow2 e"
  by (simp add: pow2_power_int)

lemma round_half_even_floor:
  "\<lfloor>m\<rfloor> \<le> round_half_even m" "round_half_even m \<le> \<lfloor>m\<rfloor> + 1"
  by (simp_all add: round_half_even_def Let_def)

lemma significand_bounds:
  assumes "x \<noteq> 0"
  shows "2 ^ 52 \<le> round_half_even (\<bar>x\<bar> / pow2 (binade \<bar>x\<bar> - 52))"
    and "round_half_even (\<bar>x\<bar> / pow2 (binade \<bar>x\<bar> - 52)) \<le> 2 ^ 53"
proof -
  define e where "e = binade \<bar>x\<bar>"
  define m where "m = \<bar>x\<bar> / pow2 (e - 52)"
  from assms have "0 < \<bar>x\<bar>" by simp
  from binade_bounds[OF this] have b: "pow2 e \<le> \<bar>x\<bar>" "\<bar>x\<bar> < pow2 (e + 1)"
    by (simp_all add: e_def)
  have p: "pow2 e = 2 ^ 52 * pow2 (e - 52)" "pow2 (e + 1) = 2 ^ 53 * pow2 (e - 52)"
    unfolding pow2_power_int
    by (simp_all add: power_int_diff power_int_add)
  from b p pow2_pos[of "e - 52"] have "2 ^ 52 \<le> m" "m < 2 ^ 53"
    by (simp_all add: m_def field_simps)
  then have "2 ^ 52 \<le> \<lfloor>m\<rfloor>" "\<lfloor>m\<rfloor> + 1 \<le> 2 ^ 53"
    by (simp_all add: le_floor_iff floor_less_iff)
  with round_half_even_floor[of m]
  show "2 ^ 52 \<le> round_half_even (\<bar>x\<bar> / pow2 (binade \<bar>x\<bar> - 52))"
    and "round_half_even (\<bar>x\<bar> / pow2 (binade \<bar>x\<bar> - 52)) \<le> 2 ^ 53"
    unfolding m_def e_def by linarith+
qed

lemma double_nearest:
  assumes "x \<noteq> 0"
  shows "\<bar>double x - x\<bar> \<le> pow2 (binade \<bar>x\<bar> - 52) / 2"
proof -
  define u where "u = pow2 (binade \<bar>x\<bar> - 52)"
  have u: "0 < u" unfolding u_def by (rule pow2_pos)
  define n where "n = round_half_even (\<bar>x\<bar> / u)"
  from round_half_even_nearest[of "\<bar>x\<bar> / u"]
  have "\<bar>of_int n - \<bar>x\<bar> / u\<bar> * u \<le> 1 / 2 * u"
    unfolding n_def using u by (intro mult_right_mono) simp_all
  moreover have "\<bar>of_int n - \<bar>x\<bar> / u\<bar> * u = \<bar>of_int n * u - \<bar>x\<bar>\<bar>"
    using u by (simp add: abs_mult[symmetric] field_simps del: abs_mult)
  ultimately have a: "\<bar>of_int n * u - \<bar>x\<bar>\<bar> \<le> u / 2" by simp
  have "double x = sgn x * (of_int n * u)"
    using assms by (simp add: double_def Let_def u_def n_def)
  moreover have "x = sgn x * \<bar>x\<bar>" by (simp add: sgn_mult_abs)
  ultimately have "double x - x = sgn x * (of_int n * u - \<bar>x\<bar>)"
    by (simp add: algebra_simps)
  then have "\<bar>double x - x\<bar> = \<bar>of_int n * u - \<bar>x\<bar>\<bar>"
    using assms by (simp add: abs_mult abs_sgn_eq)
  with a show ?thesis by (simp add: u_def)
qed

lemma double_eq_0: "double x = 0 \<longleftrightarrow> x = 0"
proof (cases "x = 0")
  case True
  then show ?thesis by (simp add: double_def)
next
  case False
  from significand_bounds(1)[OF False]
  have "round_half_even (\<bar>x\<bar> / pow2 (binade \<bar>x\<bar> - 52)) \<noteq> 0" by auto
  with False pow2_pos[of "binade \<bar>x\<bar> - 52"] show ?thesis
    by (simp add: double_def Let_def sgn_eq_0_iff)
qed

lemma megabytes_eq_0: "megabytes b = 0 \<longleftrightarrow> b = 0"
  by (simp add: megabytes_def double_eq_0)

section \<open>Evaluating the concrete pools\<close>

lemma floor_rat_numeral: "\<lfloor>(numeral a :: rat) / numeral b\<rfloor> = numeral a div numeral b"
  by (metis floor_divide_of_int_eq of_int_numeral)

lemma ceiling_rat_numeral:
  "\<lceil>(numeral a :: rat) / numeral b\<rceil> = - ((- numeral a) div numeral b)"
  by (metis ceiling_divide_eq_div of_int_numeral)

lemmas double_eval =
  double_def binade_def pow2_def round_half_even_def bit_length.simps floor_rat_numeral
  ceiling_rat_numeral Let_def

lemma double_values: "double 50 = 50" "double 90 = 90" "double 95 = 95"
  by (simp_all add: double_eval)

lemma double_one_tenth: "double (1 / 10) = 3602879701896397 / 36028797018963968"
  by (simp add: double_eval)

lemma megabytes_mb:
  "megabytes (mb 50) = 50" "megabytes (mb 500) = 500" "megabytes (mb 1000) = 1000"
  "megabytes (mb 4000) = 4000" "megabytes 104333312 = 199 / 2"
  by (simp_all add: megabytes_def mb_def double_eval)

lemma pool2_eq:
  "pool2 =
     \<lparr>poolSize = 2, memThreshold = 90, returnLog = True,
      pool = [\<lparr>wo_id = 1, wo_worker = 0\<rparr>, \<lparr>wo_id = 2, wo_worker = 1\<rparr>],
      minWorkers = None, initialMemory = 3145728000, freeMemoryAvailable = 1000, tasks = [],
      lastTaskTime = None, idleThreshold = 100, constructed = 2,
      built = [(0, 1), (1, 2)], starting = [], executing = [], awaiting = [],
      promises = 0, spawns = [], effects = []\<rparr>"
  by (simp add: pool2_def constructor_def buildPool_def buildPool_from.simps unawaited_def
      megabytes_mb) (simp add: mb_def)

lemma pool1_eq:
  "pool1 =
     \<lparr>poolSize = 1, memThreshold = 90, returnLog = True,
      pool = [\<lparr>wo_id = 1, wo_worker = 0\<rparr>],
      minWorkers = None, initialMemory = 3145728000, freeMemoryAvailable = 1000, tasks = [],
      lastTaskTime = None, idleThreshold = 100, constructed = 1,
      built = [(0, 1)], starting = [], executing = [], awaiting = [],
      promises = 0, spawns = [], effects = []\<rparr>"
  by (simp add: pool1_def constructor_def buildPool_def buildPool_from.simps unawaited_def
      megabytes_mb) (simp add: mb_def)

lemma memPercent_1000:
  "freeMemoryAvailable s = 1000 \<Longrightarrow> memPercent (mb 50) s = 95"
  "freeMemoryAvailable s = 1000 \<Longrightarrow> memPercent (mb 500) s = 50"
  "freeMemoryAvailable s = 1000 \<Longrightarrow> memPercent 104333312 s = 90"
  by (simp_all add: memPercent_def megabytes_mb toFixed1_def double_eval)

lemmas eval_defs =
  exec_def step_def run_def canExecuteTask_def runTask_def getMemPercent_def memPercent_1000
  double_values
  run_catch_def run_return_def terminateExcessWorkers.simps terminateAllWorkers.simps emit_def
  executeWorker_def listening_def errorListener_def messageListener_def cleanup_def
  runTask_return_def createLog_def resume_def task1_def task2_def task3_def

section \<open>The claims\<close>

lemma posts_append: "posts (es @ es') = posts es @ posts es'"
  by (induction es rule: posts.induct) simp_all

lemma terminated_append: "terminated (es @ es') = terminated es @ terminated es'"
  by (induction es rule: terminated.induct) simp_all

lemma terminateAllWorkers_eq:
  "terminateAllWorkers s =
     s\<lparr>pool := [],
       effects := effects s @ map (\<lambda>w. Terminate (wo_worker w)) (rev (pool s))\<rparr>"
proof (induction s rule: terminateAllWorkers.induct)
  case (1 s)
  show ?case
  proof (cases "pool s = []")
    case True
    then show ?thesis by (subst terminateAllWorkers.simps) simp
  next
    case False
    then obtain ws w where p: "pool s = ws @ [w]" by (metis rev_exhaust)
    with "1" show ?thesis by (subst terminateAllWorkers.simps) (simp add: emit_def)
  qed
qed

lemma terminateAllWorkers_empty: "pool s = [] \<Longrightarrow> terminateAllWorkers s = s"
  by (subst terminateAllWorkers.simps) simp

lemma fold_Terminated_eq:
  "fold (\<lambda>w. emit_q (Terminated (worker w))) ws q =
     q\<lparr>effects_q := effects_q q @ map (\<lambda>w. Terminated (worker w)) ws\<rparr>"
  by (induction ws arbitrary: q) (simp_all add: emit_q_def)

lemma terminateAllWorkers_q_empty: "pool_q s = [] \<Longrightarrow> terminateAllWorkers_q s = s"
  by (simp add: terminateAllWorkers_q_def)

lemma terminated_Terminate:
  "terminated (map (\<lambda>w. Terminate (wo_worker w)) ws) = map wo_worker ws"
  by (induction ws) simp_all

text \<open>
  Claim C8, as the code has it. \<^verbatim>\<open>terminateAllWorkers\<close> returns normally (it is a total
  function of the state, with no exception). It calls \<^verbatim>\<open>terminate()\<close> on every worker
  held in the array \<^verbatim>\<open>this.pool\<close>, once each (from the last to the first in
  \<^verbatim>\<open>src/index.js\<close>, from the first to the last in the queue-based pool), leaves the array
  empty and changes nothing else; a second call terminates nothing and changes nothing,
  so that the call is safe on an array that is already empty. The array of
  \<^verbatim>\<open>src/index.js\<close> holds the idle workers; the array of the queue-based pool holds every
  worker that came online, busy or idle.
\<close>

theorem shutdown_idempotent:
  "terminateAllWorkers s =
     s\<lparr>pool := [],
       effects := effects s @ map (\<lambda>w. Terminate (wo_worker w)) (rev (pool s))\<rparr> \<and>
   pool (terminateAllWorkers s) = [] \<and>
   terminated (effects (terminateAllWorkers s)) =
     terminated (effects s) @ rev (map wo_worker (pool s)) \<and>
   terminateAllWorkers (terminateAllWorkers s) = terminateAllWorkers s \<and>
   terminateAllWorkers_q q =
     q\<lparr>pool_q := [],
       effects_q := effects_q q @ map (\<lambda>w. Terminated (worker w)) (pool_q q)\<rparr> \<and>
   pool_q (terminateAllWorkers_q q) = [] \<and>
   terminateAllWorkers_q (terminateAllWorkers_q q) = terminateAllWorkers_q q"
proof -
  have a: "terminateAllWorkers s =
     s\<lparr>pool := [],
       effects := effects s @ map (\<lambda>w. Terminate (wo_worker w)) (rev (pool s))\<rparr>"
    by (rule terminateAllWorkers_eq)
  then have b: "pool (terminateAllWorkers s) = []" by simp
  from a have c: "terminated (effects (terminateAllWorkers s)) =
     terminated (effects s) @ rev (map wo_worker (pool s))"
    by (simp add: terminated_append terminated_Terminate rev_map)
  from b have d: "terminateAllWorkers (terminateAllWorkers s) = terminateAllWorkers s"
    by (rule terminateAllWorkers_empty)
  have e: "terminateAllWorkers_q q =
     q\<lparr>pool_q := [],
       effects_q := effects_q q @ map (\<lambda>w. Terminated (worker w)) (pool_q q)\<rparr>"
    by (simp add: terminateAllWorkers_q_def fold_Terminated_eq)
  then have f: "pool_q (terminateAllWorkers_q q) = []" by simp
  then have g: "terminateAllWorkers_q (terminateAllWorkers_q q) = terminateAllWorkers_q q"
    by (rule terminateAllWorkers_q_empty)
  from a b c d e f g show ?thesis by blast
qed

theorem shutdown_idempotent_witness:
  "pool (exec [Run task1 0 (mb 500)] pool2) = [\<lparr>wo_id = 2, wo_worker = 1\<rparr>] \<and>
   pool (terminateAllWorkers (exec [Run task1 0 (mb 500)] pool2)) = [] \<and>
   terminated (effects (terminateAllWorkers (exec [Run task1 0 (mb 500)] pool2))) = [1] \<and>
   terminateAllWorkers (terminateAllWorkers (exec [Run task1 0 (mb 500)] pool2)) =
     terminateAllWorkers (exec [Run task1 0 (mb 500)] pool2) \<and>
   map worker (pool_q (state_of (exec_q [Online_q 0, Run_q task1 None 10] queue1))) = [0] \<and>
   pool_q (terminateAllWorkers_q (state_of (exec_q [Online_q 0, Run_q task1 None 10] queue1))) = [] \<and>
   terminateAllWorkers_q
     (terminateAllWorkers_q (state_of (exec_q [Online_q 0, Run_q task1 None 10] queue1))) =
     terminateAllWorkers_q (state_of (exec_q [Online_q 0, Run_q task1 None 10] queue1))"
proof -
  have a: "pool (exec [Run task1 0 (mb 500)] pool2) = [\<lparr>wo_id = 2, wo_worker = 1\<rparr>]"
    and b: "terminated (effects (exec [Run task1 0 (mb 500)] pool2)) = []"
    by (simp_all add: eval_defs pool2_eq)
  have c: "map worker (pool_q (state_of (exec_q [Online_q 0, Run_q task1 None 10] queue1))) = [0]"
    by code_simp
  from shutdown_idempotent
         [of "exec [Run task1 0 (mb 500)] pool2"
             "state_of (exec_q [Online_q 0, Run_q task1 None 10] queue1)"]
  have "pool (terminateAllWorkers (exec [Run task1 0 (mb 500)] pool2)) = [] \<and>
    terminated (effects (terminateAllWorkers (exec [Run task1 0 (mb 500)] pool2))) =
      terminated (effects (exec [Run task1 0 (mb 500)] pool2)) @
      rev (map wo_worker (pool (exec [Run task1 0 (mb 500)] pool2))) \<and>
    terminateAllWorkers (terminateAllWorkers (exec [Run task1 0 (mb 500)] pool2)) =
      terminateAllWorkers (exec [Run task1 0 (mb 500)] pool2) \<and>
    pool_q (terminateAllWorkers_q (state_of (exec_q [Online_q 0, Run_q task1 None 10] queue1))) = [] \<and>
    terminateAllWorkers_q
      (terminateAllWorkers_q (state_of (exec_q [Online_q 0, Run_q task1 None 10] queue1))) =
      terminateAllWorkers_q (state_of (exec_q [Online_q 0, Run_q task1 None 10] queue1))"
    by blast
  with a b c show ?thesis by simp
qed

theorem shutdown_counterexample:
  "pool (exec [Run task1 0 (mb 500), TerminateAll, TerminateAll] pool2) = [] \<and>
   busy_workers (exec [Run task1 0 (mb 500), TerminateAll, TerminateAll] pool2) = [0] \<and>
   workers (exec [Run task1 0 (mb 500), TerminateAll, TerminateAll] pool2) = [0] \<and>
   terminated (effects (exec [Run task1 0 (mb 500), TerminateAll, TerminateAll] pool2)) = [1] \<and>
   pool (exec [Run task1 0 (mb 500), TerminateAll, TerminateAll, Message 0 7] pool2) =
     [\<lparr>wo_id = 1, wo_worker = 0\<rparr>] \<and>
   terminated (effects (exec [Run task1 0 (mb 500), TerminateAll, TerminateAll, Message 0 7] pool2)) =
     [1]"
  by (simp add: eval_defs pool2_eq workers_def busy_workers_def)

text \<open>
  Claim C10. Every way \<^verbatim>\<open>run\<close> ends goes through its \<^verbatim>\<open>finally\<close> block (\<open>run_return\<close>),
  which calls \<^verbatim>\<open>terminateExcessWorkers\<close>. In every state the pool can reach \<open>minWorkers\<close>
  is undefined; and in any state where it is undefined the loop condition is false, so
  that \<^verbatim>\<open>terminateExcessWorkers\<close> returns the state as it is and \<^verbatim>\<open>run\<close> ends by
  resolving its promise only: no worker is terminated and the pool keeps its contents.
\<close>

theorem excess_workers_never_terminated:
  assumes "s = exec evs (constructor n rl thr lf tm fm sp)"
  shows "minWorkers s = None \<and> terminateExcessWorkers s = s \<and>
         pool (run_return c r s) = pool s \<and>
         terminated (effects (run_return c r s)) = terminated (effects s) \<and>
         (\<forall>s'. minWorkers s' = None \<longrightarrow>
            terminateExcessWorkers s' = s' \<and>
            run_return c r s' = emit (Return (c_promise c) r) s')"
proof -
  have "inv n (megabytes lf) thr s" unfolding assms by (rule inv_reachable)
  then have m: "minWorkers s = None" by (simp add: inv_def)
  have t: "terminated (es @ [Return p x]) = terminated es" for es p x
    by (induction es rule: terminated.induct) simp_all
  from m show ?thesis
    by (simp add: terminateExcessWorkers_undefined run_return_def emit_def t)
qed

theorem excess_workers_never_terminated_witness:
  "terminateExcessWorkers (exec [Run task1 0 (mb 500), Message 0 7] pool2) =
     exec [Run task1 0 (mb 500), Message 0 7] pool2 \<and>
   pool (exec [Run task1 0 (mb 500), Message 0 7] pool2) =
     [\<lparr>wo_id = 2, wo_worker = 1\<rparr>, \<lparr>wo_id = 1, wo_worker = 0\<rparr>]"
proof -
  have "pool (exec [Run task1 0 (mb 500), Message 0 7] pool2) =
     [\<lparr>wo_id = 2, wo_worker = 1\<rparr>, \<lparr>wo_id = 1, wo_worker = 0\<rparr>]"
    by (simp add: eval_defs pool2_eq)
  with excess_workers_never_terminated
         [of "exec [Run task1 0 (mb 500), Message 0 7] pool2" "[Run task1 0 (mb 500), Message 0 7]"
             2 True 90 "mb 1000" "mb 4000" "mb 1000" "[]"]
  show ?thesis by (simp add: pool2_def)
qed

text \<open>
  Claim C4, as the code has it. In every state a pool can reach from its constructor, by
  calls of \<^verbatim>\<open>run\<close>, suspended calls resuming, completions and failures of tasks, calls of
  \<^verbatim>\<open>addNewWorkerToPool\<close>, workers coming online and \<^verbatim>\<open>terminateAllWorkers\<close>, the array
  \<^verbatim>\<open>this.pool\<close> holds at most \<open>poolSize\<close> workers. In \<^verbatim>\<open>src/index.js\<close> the array holds the
  idle workers: a worker that runs a task has been taken off it and is not counted. In
  the queue-based pool the array holds every worker that came online, busy or idle, and
  no more than \<open>poolSize\<close> workers are ever constructed.
\<close>

theorem pool_size_bounded:
  assumes "s = exec evs (constructor n rl thr lf tm fm sp)"
    and "q = state_of (exec_q evs' (constructor_q n' rl' sp'))"
  shows "poolSize s = n \<and> 0 \<le> length (pool s) \<and> length (pool s) \<le> n \<and>
         poolSize_q q = n' \<and> 0 \<le> length (pool_q q) \<and> length (pool_q q) \<le> n' \<and>
         length (workers_q q) \<le> n'"
proof -
  have "inv n (megabytes lf) thr s" unfolding assms by (rule inv_reachable)
  moreover have "inv_size_q n' q" unfolding assms by (rule size_reachable)
  ultimately show ?thesis by (simp add: inv_def inv_size_q_def)
qed

theorem pool_size_bounded_witness:
  "length (pool (exec [Run task1 0 (mb 500), Run task2 5 (mb 500), Run task3 9 (mb 500),
                       Resume (mb 500), Message 0 7, Message 1 8, Message 2 9] pool2)) \<le> 2 \<and>
   pool (exec [Run task1 0 (mb 500), Run task2 5 (mb 500), Run task3 9 (mb 500),
               Resume (mb 500), Message 0 7, Message 1 8, Message 2 9] pool2) =
     [\<lparr>wo_id = 2, wo_worker = 3\<rparr>, \<lparr>wo_id = 1, wo_worker = 0\<rparr>] \<and>
   length (pool_q (state_of (exec_q [Online_q 0, Online_q 1, Run_q task1 None 10, Online_q 2]
                                    (queue3 [])))) \<le> 3 \<and>
   map busy (pool_q (state_of (exec_q [Online_q 0, Online_q 1, Run_q task1 None 10, Online_q 2]
                                      (queue3 [])))) = [True, False, False] \<and>
   length (workers_q (state_of (exec_q [Online_q 0, Online_q 1, Run_q task1 None 10, Online_q 2]
                                       (queue3 [])))) = 3"
proof -
  have a: "pool (exec [Run task1 0 (mb 500), Run task2 5 (mb 500), Run task3 9 (mb 500),
               Resume (mb 500), Message 0 7, Message 1 8, Message 2 9] pool2) =
     [\<lparr>wo_id = 2, wo_worker = 3\<rparr>, \<lparr>wo_id = 1, wo_worker = 0\<rparr>]"
    by (simp add: eval_defs pool2_eq buildPool_def buildPool_from.simps)
  have b: "map busy (pool_q (state_of (exec_q [Online_q 0, Online_q 1, Run_q task1 None 10, Online_q 2]
                                      (queue3 [])))) = [True, False, False]"
    "length (workers_q (state_of (exec_q [Online_q 0, Online_q 1, Run_q task1 None 10, Online_q 2]
                                       (queue3 [])))) = 3"
    by code_simp+
  have "length (pool (exec [Run task1 0 (mb 500), Run task2 5 (mb 500), Run task3 9 (mb 500),
                       Resume (mb 500), Message 0 7, Message 1 8, Message 2 9] pool2)) \<le> 2 \<and>
        length (pool_q (state_of (exec_q [Online_q 0, Online_q 1, Run_q task1 None 10, Online_q 2]
                                    (queue3 [])))) \<le> 3"
    using pool_size_bounded
         [of "exec [Run task1 0 (mb 500), Run task2 5 (mb 500), Run task3 9 (mb 500),
                    Resume (mb 500), Message 0 7, Message 1 8, Message 2 9] pool2" _
             2 True 90 "mb 1000" "mb 4000" "mb 1000" "[]"
             "state_of (exec_q [Online_q 0, Online_q 1, Run_q task1 None 10, Online_q 2] (queue3 []))"
             _ 3 True "[]"]
    unfolding pool2_def queue3_def by blast
  with a b show ?thesis by blast
qed

theorem pool_size_counterexample:
  "poolSize (exec [Run task1 0 (mb 500), Run task2 5 (mb 500), Resume (mb 500),
                   Run task3 9 (mb 500), Resume (mb 500)] pool1) = 1 \<and>
   pool (exec [Run task1 0 (mb 500), Run task2 5 (mb 500), Resume (mb 500),
               Run task3 9 (mb 500), Resume (mb 500)] pool1) = [] \<and>
   busy_workers (exec [Run task1 0 (mb 500), Run task2 5 (mb 500), Resume (mb 500),
                       Run task3 9 (mb 500), Resume (mb 500)] pool1) = [0, 1, 2] \<and>
   workers (exec [Run task1 0 (mb 500), Run task2 5 (mb 500), Resume (mb 500),
                  Run task3 9 (mb 500), Resume (mb 500)] pool1) = [0, 1, 2] \<and>
   terminated (effects (exec [Run task1 0 (mb 500), Run task2 5 (mb 500), Resume (mb 500),
                              Run task3 9 (mb 500), Resume (mb 500)] pool1)) = [] \<and>
   \<not> length (workers (exec [Run task1 0 (mb 500), Run task2 5 (mb 500), Resume (mb 500),
                           Run task3 9 (mb 500), Resume (mb 500)] pool1))
       \<le> poolSize (exec [Run task1 0 (mb 500), Run task2 5 (mb 500), Resume (mb 500),
                          Run task3 9 (mb 500), Resume (mb 500)] pool1)"
  by (simp add: eval_defs pool1_eq buildPool_def buildPool_from.simps workers_def
      busy_workers_def)

lemma find_busy_None: "\<forall>w \<in> set ws. busy w \<Longrightarrow> find (\<lambda>w. \<not> busy w) ws = None"
  by (induction ws) simp_all

lemma assignTasks_saturated:
  "\<forall>w \<in> set (pool_q s). busy w \<Longrightarrow> assignTasks now s = Inr s"
  by (simp add: assignTasks_def find_busy_None)

lemma assignTasks_taskQueue:
  "taskQueue (state_of (assignTasks now s)) = taskQueue s \<or>
   taskQueue (state_of (assignTasks now s)) = tl (taskQueue s)"
  by (simp add: assignTasks_def Let_def emit_q_def split: option.splits list.splits)

text \<open>
  Claim C2. In every state the queue-based pool can reach, the entries taken from the
  queue followed by the entries still in it are the submissions, in the order of the
  calls of \<^verbatim>\<open>run\<close>, and the tasks posted to workers are the tasks taken from the
  queue, in that order (those that can be cloned). \<^verbatim>\<open>assignTasks\<close> leaves the queue as
  it is or removes its head; and while no worker is idle a call of \<^verbatim>\<open>run\<close> appends its
  entry at the tail and posts nothing.
\<close>

theorem queue_is_fifo:
  assumes "s = state_of (exec_q evs (constructor_q n rl sp))"
  shows "shifted (effects_q s) @ queued s = submitted (effects_q s) \<and>
         posted (effects_q s) = filter cloneable (map snd (shifted (effects_q s))) \<and>
         (taskQueue (state_of (assignTasks now s)) = taskQueue s \<or>
          taskQueue (state_of (assignTasks now s)) = tl (taskQueue s)) \<and>
         ((\<forall>w \<in> set (pool_q s). busy w) \<longrightarrow>
            taskQueue (run_q t tid now s) =
              taskQueue s @ [\<lparr>e_task = t, e_taskId = tid, e_promise = promises_q s\<rparr>] \<and>
            posted (effects_q (run_q t tid now s)) = posted (effects_q s))"
proof -
  have "inv_fifo_q s" unfolding assms by (rule fifo_reachable)
  then have a: "shifted (effects_q s) @ queued s = submitted (effects_q s)"
    and b: "posted (effects_q s) = filter cloneable (map snd (shifted (effects_q s)))"
    by (simp_all add: inv_fifo_q_def)
  have c: "taskQueue (run_q t tid now s) =
              taskQueue s @ [\<lparr>e_task = t, e_taskId = tid, e_promise = promises_q s\<rparr>] \<and>
            posted (effects_q (run_q t tid now s)) = posted (effects_q s)"
    if "\<forall>w \<in> set (pool_q s). busy w"
  proof -
    let ?s1 = "emit_q (Submitted (promises_q s) t)
                 (s\<lparr>promises_q := Suc (promises_q s),
                    taskQueue := taskQueue s @ [\<lparr>e_task = t, e_taskId = tid, e_promise = promises_q s\<rparr>]\<rparr>)"
    from that have "\<forall>w \<in> set (pool_q ?s1). busy w" by (simp add: emit_q_def)
    then have "assignTasks now ?s1 = Inr ?s1" by (rule assignTasks_saturated)
    then show ?thesis by (simp add: run_q_def Let_def emit_q_def posted_append)
  qed
  from a b c assignTasks_taskQueue [of now s] show ?thesis by blast
qed

theorem queue_is_fifo_witness:
  "posted (effects_q (state_of (exec_q
      [Online_q 0, Run_q task1 None 10, Run_q task2 None 11, Run_q task3 None 12,
       Message_q 0 7 20, Message_q 0 8 30] queue1))) = [task1, task2, task3] \<and>
   shifted (effects_q (state_of (exec_q
      [Online_q 0, Run_q task1 None 10, Run_q task2 None 11, Run_q task3 None 12,
       Message_q 0 7 20, Message_q 0 8 30] queue1))) = [(0, task1), (1, task2), (2, task3)] \<and>
   submitted (effects_q (state_of (exec_q
      [Online_q 0, Run_q task1 None 10, Run_q task2 None 11, Run_q task3 None 12,
       Message_q 0 7 20, Message_q 0 8 30] queue1))) = [(0, task1), (1, task2), (2, task3)] \<and>
   queued (state_of (exec_q
      [Online_q 0, Run_q task1 None 10, Run_q task2 None 11, Run_q task3 None 12,
       Message_q 0 7 20, Message_q 0 8 30] queue1)) = []"
proof -
  have "shifted (effects_q (state_of (exec_q
      [Online_q 0, Run_q task1 None 10, Run_q task2 None 11, Run_q task3 None 12,
       Message_q 0 7 20, Message_q 0 8 30] queue1))) = [(0, task1), (1, task2), (2, task3)]"
    and "queued (state_of (exec_q
      [Online_q 0, Run_q task1 None 10, Run_q task2 None 11, Run_q task3 None 12,
       Message_q 0 7 20, Message_q 0 8 30] queue1)) = []"
    by code_simp+
  with queue_is_fifo [OF refl,
      of "[Online_q 0, Run_q task1 None 10, Run_q task2 None 11, Run_q task3 None 12,
           Message_q 0 7 20, Message_q 0 8 30]" 1 True "[]" 0 task1 None]
  show ?thesis by (simp add: queue1_def task1_def task2_def task3_def)
qed

lemma update_first_keeps: "w \<in> set xs \<Longrightarrow> \<not> P w \<Longrightarrow> w \<in> set (update_first P f xs)"
  by (induction xs) auto

lemma assignTasks_keeps_busy:
  "w \<in> set (pool_q s) \<Longrightarrow> busy w \<Longrightarrow> w \<in> set (pool_q (state_of (assignTasks now s)))"
  by (auto simp: assignTasks_def Let_def emit_q_def update_first_keeps
      split: option.splits list.splits)

text \<open>
  Claim C7. In every run of the queue-based pool no message is posted to a worker that
  holds a task: between two messages posted to the same worker its busy flag has been
  cleared (\<open>exclusive\<close>). In every reachable state a worker that holds a task has its
  busy flag set, and \<^verbatim>\<open>assignTasks\<close> leaves the pool entry of every busy worker as it is.
\<close>

theorem busy_worker_gets_no_second_task:
  assumes "s = state_of (exec_q evs (constructor_q n rl sp))"
  shows "exclusive [] (effects_q s) \<and>
         (\<forall>w \<in> set (pool_q s). worker w \<in> set (in_flight [] (effects_q s)) \<longrightarrow> busy w) \<and>
         (\<forall>w \<in> set (pool_q s). busy w \<longrightarrow> w \<in> set (pool_q (state_of (assignTasks now s))))"
proof -
  have "inv_busy_q s" unfolding assms by (rule busy_reachable)
  then have "exclusive [] (effects_q s)"
    and "\<forall>w \<in> set (pool_q s). worker w \<in> set (in_flight [] (effects_q s)) \<longrightarrow> busy w"
    unfolding inv_busy_q_def by auto
  then show ?thesis by (simp add: assignTasks_keeps_busy)
qed

theorem busy_worker_gets_no_second_task_witness:
  "exclusive [] (effects_q (state_of (exec_q
      [Online_q 0, Run_q task1 None 10, Run_q task2 None 11, Message_q 0 7 20] queue1))) \<and>
   in_flight [] (effects_q (state_of (exec_q
      [Online_q 0, Run_q task1 None 10, Run_q task2 None 11, Message_q 0 7 20] queue1))) = [0] \<and>
   map busy (pool_q (state_of (exec_q
      [Online_q 0, Run_q task1 None 10, Run_q task2 None 11, Message_q 0 7 20] queue1))) = [True]"
proof -
  have "in_flight [] (effects_q (state_of (exec_q
      [Online_q 0, Run_q task1 None 10, Run_q task2 None 11, Message_q 0 7 20] queue1))) = [0]"
    and "map busy (pool_q (state_of (exec_q
      [Online_q 0, Run_q task1 None 10, Run_q task2 None 11, Message_q 0 7 20] queue1))) = [True]"
    by code_simp+
  with busy_worker_gets_no_second_task [OF refl,
      of "[Online_q 0, Run_q task1 None 10, Run_q task2 None 11, Message_q 0 7 20]" 1 True "[]" 0]
  show ?thesis by (simp add: queue1_def)
qed

text \<open>
  Claim C6, as the code has it. The capacity check computes
  \<open>((freeMemoryAvailable - freeMemory) / freeMemoryAvailable) * 100\<close> in the arithmetic of
  doubles and formats it with one decimal, where \<open>freeMemoryAvailable\<close> is the free
  memory in megabytes measured once, when the module was loaded (not the total memory of
  the system), and \<open>freeMemory\<close> is the free memory now. Provided the free memory
  measured at load was not zero: when that decimal, read back as a number, is above
  \<open>memThreshold\<close> the check throws \<^verbatim>\<open>CustomError(..., 503)\<close>; otherwise it returns the
  boolean \<open>memPercent < memThreshold\<close>, not the percentage.
\<close>

theorem capacity_check_computes:
  assumes "s = exec evs (constructor n rl thr lf tm fm sp)" and "lf \<noteq> 0"
  shows "freeMemoryAvailable s = megabytes lf \<and> memThreshold s = thr \<and>
         memPercent freemem s =
           toFixed1 (double (double (double (megabytes lf - megabytes freemem) / megabytes lf)
                             * 100)) \<and>
         (thr < double (memPercent freemem s) \<longrightarrow>
            getMemPercent freemem s = Inl (CustomError CapacityLow 503)) \<and>
         (\<not> thr < double (memPercent freemem s) \<longrightarrow>
            getMemPercent freemem s = Inr (Boolean (double (memPercent freemem s) < thr)))"
proof -
  have "inv n (megabytes lf) thr s" unfolding assms(1) by (rule inv_reachable)
  then have f: "freeMemoryAvailable s = megabytes lf" and t: "memThreshold s = thr"
    by (simp_all add: inv_def)
  moreover from assms(2) have "megabytes lf \<noteq> 0" by (simp add: megabytes_eq_0)
  ultimately show ?thesis by (simp add: getMemPercent_def memPercent_def Let_def)
qed

theorem capacity_check_computes_witness:
  "mb 1000 \<noteq> 0 \<and>
   memPercent (mb 500) pool2 = 50 \<and> getMemPercent (mb 500) pool2 = Inr (Boolean True) \<and>
   memPercent (mb 50) pool2 = 95 \<and>
   getMemPercent (mb 50) pool2 = Inl (CustomError CapacityLow 503) \<and>
   memPercent 104333312 pool2 = 90 \<and> getMemPercent 104333312 pool2 = Inr (Boolean False)"
proof -
  have e: "pool2 = exec [] (constructor 2 True 90 (mb 1000) (mb 4000) (mb 1000) [])"
    by (simp add: pool2_def exec_def)
  have nz: "mb 1000 \<noteq> 0" by (simp add: mb_def)
  have b: "memPercent (mb 500) pool2 = 50" "memPercent (mb 50) pool2 = 95"
    "memPercent 104333312 pool2 = 90"
    by (simp_all add: memPercent_1000 pool2_eq)
  from capacity_check_computes [OF e nz, of "mb 500"]
  have "\<not> 90 < double (memPercent (mb 500) pool2) \<longrightarrow>
          getMemPercent (mb 500) pool2 =
            Inr (Boolean (double (memPercent (mb 500) pool2) < 90))"
    by blast
  moreover from capacity_check_computes [OF e nz, of "mb 50"]
  have "90 < double (memPercent (mb 50) pool2) \<longrightarrow>
          getMemPercent (mb 50) pool2 = Inl (CustomError CapacityLow 503)"
    by blast
  moreover from capacity_check_computes [OF e nz, of 104333312]
  have "\<not> 90 < double (memPercent 104333312 pool2) \<longrightarrow>
          getMemPercent 104333312 pool2 =
            Inr (Boolean (double (memPercent 104333312 pool2) < 90))"
    by blast
  ultimately show ?thesis using b nz by (simp add: double_values)
qed

theorem capacity_formula_counterexample:
  "initialMemory pool2 = int (mb 4000) - int (mb 1000) \<and>
   freeMemoryAvailable pool2 = megabytes (mb 1000) \<and>
   memPercent (mb 500) pool2 = 50 \<and>
   spec_memoryUsedPercent (megabytes (mb 4000)) (megabytes (mb 500)) = 7 / 8 \<and>
   memPercent (mb 500) pool2 \<noteq> 100 * spec_memoryUsedPercent (megabytes (mb 4000)) (megabytes (mb 500)) \<and>
   getMemPercent (mb 500) pool2 = Inr (Boolean True) \<and>
   getMemPercent (mb 500) pool2 \<noteq> Inr (Number (memPercent (mb 500) pool2))"
  by (simp add: pool2_eq getMemPercent_def memPercent_1000 spec_memoryUsedPercent_def megabytes_mb
      double_values)
     (simp add: mb_def)

lemma memPercent_cong:
  "freeMemoryAvailable s' = freeMemoryAvailable s \<Longrightarrow> memPercent f s' = memPercent f s"
  by (simp add: memPercent_def)

text \<open>
  What \<^verbatim>\<open>run\<close> does when the percentage is above the threshold and the pool is not empty:
  the reply has status 503, nothing is posted and nothing is terminated, but the first
  worker has left the pool: \<^verbatim>\<open>runTask\<close> took it before it called \<^verbatim>\<open>getMemPercent\<close>.
\<close>

lemma run_over_capacity:
  assumes "inv n fma thr s" and "fma \<noteq> 0" and "pool s = w # rest"
    and "thr < double (memPercent freemem s)"
  shows "effects (run t now freemem s) =
           effects s @ [Return (promises s) (Failed 503 CapacityLow)] \<and>
         posts (effects (run t now freemem s)) = posts (effects s) \<and>
         terminated (effects (run t now freemem s)) = terminated (effects s) \<and>
         executing (run t now freemem s) = executing s \<and>
         pool (run t now freemem s) = rest"
proof -
  define s1 where "s1 = (snd (canExecuteTask now s))\<lparr>promises := Suc (promises s)\<rparr>"
  define c where "c = \<lparr>c_promise = promises s, c_task = t,
                         c_status = (if fst (canExecuteTask now s) then 200 else 429)\<rparr>"
  have fr: "pool s1 = pool s" "effects s1 = effects s" "executing s1 = executing s"
    "freeMemoryAvailable s1 = freeMemoryAvailable s" "memThreshold s1 = memThreshold s"
    "minWorkers s1 = minWorkers s" "promises (snd (canExecuteTask now s)) = promises s"
    by (simp_all add: s1_def canExecuteTask_def Let_def split: option.splits)
  have r: "run t now freemem s = runTask c freemem s1"
    by (simp add: run_def s1_def c_def split_beta Let_def fr)
  from assms fr have g: "getMemPercent freemem (s1\<lparr>pool := rest\<rparr>) = Inl (CustomError CapacityLow 503)"
    by (simp add: getMemPercent_def inv_def memPercent_cong[of "s1\<lparr>pool := rest\<rparr>" s])
  from assms fr have m: "minWorkers (s1\<lparr>pool := rest\<rparr>) = None" by (simp add: inv_def)
  have "runTask c freemem s1 =
          emit (Return (promises s) (Failed 503 CapacityLow)) (s1\<lparr>pool := rest\<rparr>)"
    using assms(3) fr g
    by (simp add: runTask_def run_catch_def run_return_def terminateExcessWorkers_undefined[OF m] c_def)
  with r fr show ?thesis by (simp add: emit_def posts_append terminated_append)
qed

text \<open>
  Claim C1, at a pool of two idle workers with 95 per cent of the memory used, against a
  threshold of 90: \<^verbatim>\<open>run\<close> replies with status 503 and posts no task, as the claim says,
  but the pool is not unchanged: its first worker is gone, neither terminated nor in
  flight.
\<close>

theorem capacity_gate_loses_worker:
  "pool pool2 = [\<lparr>wo_id = 1, wo_worker = 0\<rparr>, \<lparr>wo_id = 2, wo_worker = 1\<rparr>] \<and>
   memThreshold pool2 = 90 \<and> memPercent (mb 50) pool2 = 95 \<and>
   run task1 0 (mb 50) pool2 =
     pool2\<lparr>pool := [\<lparr>wo_id = 2, wo_worker = 1\<rparr>], lastTaskTime := Some 0, promises := 1,
           effects := [Return 0 (Failed 503 CapacityLow)]\<rparr>"
  by (simp add: eval_defs pool2_eq)

lemma errorListener_frame:
  assumes "minWorkers s = None"
  shows "minWorkers (errorListener ex s) = None"
    and "pool (errorListener ex s) = pool s"
    and "constructed (errorListener ex s) = constructed s"
    and "starting (errorListener ex s) = starting s"
    and "set (effects s) \<subseteq> set (effects (errorListener ex s))"
    and "executing (errorListener ex s) =
           filter (\<lambda>e. c_promise (ex_call e) \<noteq> c_promise (ex_call ex)) (executing s)"
    and "\<not> ex_settled ex \<Longrightarrow>
           Return (c_promise (ex_call ex))
             (Failed 500 (FailedDuringExecution (wo_id (ex_worker ex))))
           \<in> set (effects (errorListener ex s))"
proof -
  show "minWorkers (errorListener ex s) = None"
    and "pool (errorListener ex s) = pool s"
    and "constructed (errorListener ex s) = constructed s"
    and "starting (errorListener ex s) = starting s"
    and "set (effects s) \<subseteq> set (effects (errorListener ex s))"
    and "executing (errorListener ex s) =
           filter (\<lambda>e. c_promise (ex_call e) \<noteq> c_promise (ex_call ex)) (executing s)"
    and "\<not> ex_settled ex \<Longrightarrow>
           Return (c_promise (ex_call ex))
             (Failed 500 (FailedDuringExecution (wo_id (ex_worker ex))))
           \<in> set (effects (errorListener ex s))"
    using assms
    by (auto simp: errorListener_def Let_def run_catch_def run_return_def
        terminateExcessWorkers_undefined emit_def cleanup_def)
qed

lemma fold_errorListener_frame:
  assumes "minWorkers s = None"
  shows "minWorkers (fold errorListener xs s) = None \<and>
         pool (fold errorListener xs s) = pool s \<and>
         constructed (fold errorListener xs s) = constructed s \<and>
         starting (fold errorListener xs s) = starting s \<and>
         set (effects s) \<subseteq> set (effects (fold errorListener xs s)) \<and>
         executing (fold errorListener xs s) =
           filter (\<lambda>e. c_promise (ex_call e) \<notin> (\<lambda>x. c_promise (ex_call x)) ` set xs) (executing s)"
  using assms
proof (induction xs arbitrary: s)
  case Nil
  then show ?case by simp
next
  case (Cons x xs)
  note f = errorListener_frame[OF Cons.prems, of x]
  from Cons.IH[OF f(1)] f(2-6) show ?case
    by (auto intro!: filter_cong)
qed

lemma fold_errorListener_rejects:
  assumes "minWorkers s = None" and "ex \<in> set xs" and "\<not> ex_settled ex"
  shows "Return (c_promise (ex_call ex))
           (Failed 500 (FailedDuringExecution (wo_id (ex_worker ex))))
         \<in> set (effects (fold errorListener xs s))"
  using assms
proof (induction xs arbitrary: s)
  case Nil
  then show ?case by simp
next
  case (Cons x xs)
  note f = errorListener_frame[OF Cons.prems(1), of x]
  show ?case
  proof (cases "ex = x")
    case True
    with f(7) Cons.prems(3)
    have "Return (c_promise (ex_call ex))
            (Failed 500 (FailedDuringExecution (wo_id (ex_worker ex))))
          \<in> set (effects (errorListener x s))" by simp
    with fold_errorListener_frame[OF f(1), of xs] show ?thesis by auto
  next
    case False
    with Cons.prems have "ex \<in> set xs" by simp
    from Cons.IH[OF f(1) this Cons.prems(3)] show ?thesis by simp
  qed
qed

text \<open>
  Claim C5 against the code. When a worker that runs a task emits \<^verbatim>\<open>'error'\<close>, the pool of
  \<^verbatim>\<open>src/index.js\<close> removes the listeners of the execution and rejects its promise, so that
  \<^verbatim>\<open>run\<close> replies with status 500, and that is all: the array \<^verbatim>\<open>this.pool\<close> is as it was,
  one worker short since the task was dispatched, and no worker is constructed or
  starting in its place (\<^verbatim>\<open>addNewWorkerToPool\<close>, which would construct one, is not
  called). The queue-based pool only writes the error to \<^verbatim>\<open>console.error\<close>: the failed
  worker is still in its array, no worker is constructed or starting in its place, and
  the queue and the promises are as they were. The claim asks for the failed worker to
  be removed and for a replacement to be attempted.
\<close>

theorem failed_worker_is_not_replaced:
  assumes "s = exec evs (constructor n rl thr lf tm fm sp)"
    and "s' = step (WorkerError h) s"
  shows "pool s' = pool s \<and> constructed s' = constructed s \<and> starting s' = starting s \<and>
         listening h s' = [] \<and>
         (\<forall>ex \<in> set (listening h s). \<not> ex_settled ex \<longrightarrow>
            Return (c_promise (ex_call ex))
              (Failed 500 (FailedDuringExecution (wo_id (ex_worker ex)))) \<in> set (effects s')) \<and>
         (\<exists>q'. step_q (WorkerError_q h) q = Inr q' \<and>
               pool_q q' = pool_q q \<and> taskQueue q' = taskQueue q \<and>
               workers_q q' = workers_q q \<and> starting_q q' = starting_q q \<and>
               building_q q' = building_q q \<and>
               settled (effects_q q') = settled (effects_q q) \<and>
               posted (effects_q q') = posted (effects_q q))"
proof -
  have "inv n (megabytes lf) thr s" unfolding assms(1) by (rule inv_reachable)
  then have m: "minWorkers s = None" by (simp add: inv_def)
  define s0 where "s0 = (case map_of (built s) h of
                           None \<Rightarrow> s
                         | Some workerId \<Rightarrow> emit (Console (ErrorIn workerId)) s)"
  have s0: "minWorkers s0 = None" "pool s0 = pool s" "constructed s0 = constructed s"
    "starting s0 = starting s" "executing s0 = executing s"
    using m by (simp_all add: s0_def emit_def split: option.splits)
  have s': "s' = fold errorListener (listening h s) s0"
    by (simp add: assms(2) step_def s0_def)
  note f = fold_errorListener_frame[OF s0(1), of "listening h s"]
  have a: "pool s' = pool s \<and> constructed s' = constructed s \<and> starting s' = starting s"
    using f s0 by (simp add: s')
  have "executing s' =
          filter (\<lambda>e. c_promise (ex_call e) \<notin> (\<lambda>x. c_promise (ex_call x)) ` set (listening h s))
            (executing s)"
    using f s0 by (simp add: s')
  then have b: "listening h s' = []"
    by (auto simp: listening_def filter_empty_conv)
  have c: "\<forall>ex \<in> set (listening h s). \<not> ex_settled ex \<longrightarrow>
            Return (c_promise (ex_call ex))
              (Failed 500 (FailedDuringExecution (wo_id (ex_worker ex)))) \<in> set (effects s')"
    unfolding s' using fold_errorListener_rejects[OF s0(1)] by blast
  have d: "\<exists>q'. step_q (WorkerError_q h) q = Inr q' \<and>
               pool_q q' = pool_q q \<and> taskQueue q' = taskQueue q \<and>
               workers_q q' = workers_q q \<and> starting_q q' = starting_q q \<and>
               building_q q' = building_q q \<and>
               settled (effects_q q') = settled (effects_q q) \<and>
               posted (effects_q q') = posted (effects_q q)"
    by (cases "map_of (workers_q q) h") (simp_all add: emit_q_def settled_append posted_append)
  from a b c d show ?thesis by blast
qed

theorem failed_worker_is_not_replaced_witness:
  "poolSize (exec [Run task1 0 (mb 500), WorkerError 0] pool2) = 2 \<and>
   pool (exec [Run task1 0 (mb 500), WorkerError 0] pool2) =
     pool (exec [Run task1 0 (mb 500)] pool2) \<and>
   pool (exec [Run task1 0 (mb 500), WorkerError 0] pool2) = [\<lparr>wo_id = 2, wo_worker = 1\<rparr>] \<and>
   constructed (exec [Run task1 0 (mb 500), WorkerError 0] pool2) = 2 \<and>
   starting (exec [Run task1 0 (mb 500), WorkerError 0] pool2) = [] \<and>
   effects (exec [Run task1 0 (mb 500), WorkerError 0] pool2) =
     [Post 0 task1, Console (ErrorIn 1), Return 0 (Failed 500 (FailedDuringExecution 1))] \<and>
   poolSize_q queue1_failed = 1 \<and>
   map worker (pool_q queue1_failed) = [0] \<and> map busy (pool_q queue1_failed) = [True] \<and>
   map fst (workers_q queue1_failed) = [0] \<and> starting_q queue1_failed = []"
proof -
  have e: "exec [Run task1 0 (mb 500)] pool2 =
             exec [Run task1 0 (mb 500)] (constructor 2 True 90 (mb 1000) (mb 4000) (mb 1000) [])"
    by (simp add: pool2_def)
  have f: "exec [Run task1 0 (mb 500), WorkerError 0] pool2 =
             step (WorkerError 0) (exec [Run task1 0 (mb 500)] pool2)"
    by (simp add: exec_def)
  have g: "exec [Run task1 0 (mb 500), WorkerError 0] pool2 =
     pool2\<lparr>pool := [\<lparr>wo_id = 2, wo_worker = 1\<rparr>], lastTaskTime := Some 0, promises := 1,
           effects := [Post 0 task1, Console (ErrorIn 1),
                       Return 0 (Failed 500 (FailedDuringExecution 1))]\<rparr>"
    by (simp add: eval_defs pool2_eq)
  have h: "poolSize pool2 = 2" "constructed pool2 = 2" "starting pool2 = []"
    by (simp_all add: pool2_eq)
  have k: "poolSize_q queue1_failed = 1 \<and>
     map worker (pool_q queue1_failed) = [0] \<and> map busy (pool_q queue1_failed) = [True] \<and>
     map fst (workers_q queue1_failed) = [0] \<and> starting_q queue1_failed = []"
    by code_simp
  from failed_worker_is_not_replaced [OF e f]
  have "pool (exec [Run task1 0 (mb 500), WorkerError 0] pool2) =
          pool (exec [Run task1 0 (mb 500)] pool2)"
    by blast
  with g h k show ?thesis by simp
qed

lemma assignTasks_frame:
  "workers_q (state_of (assignTasks now s)) = workers_q s"
  "starting_q (state_of (assignTasks now s)) = starting_q s"
  "building_q (state_of (assignTasks now s)) = building_q s"
  "spawns_q (state_of (assignTasks now s)) = spawns_q s"
  by (simp_all add: assignTasks_def Let_def emit_q_def split: option.splits list.splits)

lemma run_q_frame:
  "workers_q (run_q t tid now s) = workers_q s"
  "starting_q (run_q t tid now s) = starting_q s"
  "building_q (run_q t tid now s) = building_q s"
  "spawns_q (run_q t tid now s) = spawns_q s"
proof -
  let ?s1 = "emit_q (Submitted (promises_q s) t)
               (s\<lparr>promises_q := Suc (promises_q s),
                  taskQueue := taskQueue s @ [\<lparr>e_task = t, e_taskId = tid, e_promise = promises_q s\<rparr>]\<rparr>)"
  have "workers_q (run_q t tid now s) = workers_q (state_of (assignTasks now ?s1)) \<and>
        starting_q (run_q t tid now s) = starting_q (state_of (assignTasks now ?s1)) \<and>
        building_q (run_q t tid now s) = building_q (state_of (assignTasks now ?s1)) \<and>
        spawns_q (run_q t tid now s) = spawns_q (state_of (assignTasks now ?s1))"
    by (cases "assignTasks now ?s1") (auto simp: run_q_def Let_def emit_q_def)
  then show "workers_q (run_q t tid now s) = workers_q s"
    "starting_q (run_q t tid now s) = starting_q s"
    "building_q (run_q t tid now s) = building_q s"
    "spawns_q (run_q t tid now s) = spawns_q s"
    by (simp_all add: assignTasks_frame emit_q_def)
qed

lemma handleWorkerResult_frame:
  "workers_q (state_of (handleWorkerResult h r k now s)) = workers_q s"
  "starting_q (state_of (handleWorkerResult h r k now s)) = starting_q s"
  "building_q (state_of (handleWorkerResult h r k now s)) = building_q s"
  "spawns_q (state_of (handleWorkerResult h r k now s)) = spawns_q s"
  by (simp_all add: handleWorkerResult_def Let_def assignTasks_frame emit_q_def
      split: option.splits)

lemma spawns_fold_Terminated:
  "spawns_q (fold (\<lambda>w. emit_q (Terminated (worker w))) ws s) = spawns_q s"
  by (induction ws arbitrary: s) (simp_all add: emit_q_def)

lemma build_over_step: "build_over W sp s \<Longrightarrow> build_over W sp (state_of (step_q ev s))"
  by (rule step_q_preserves)
     (simp_all add: build_over_def run_q_frame handleWorkerResult_frame online_q_def emit_q_def
        terminateAllWorkers_q_def frame_fold_Terminated spawns_fold_Terminated)

lemma build_over_exec: "build_over W sp s \<Longrightarrow> build_over W sp (state_of (exec_q evs s))"
  by (rule exec_q_induct_inv) (rule build_over_step)

text \<open>
  Claim C9, as the code has it. When the constructor of a worker throws during
  \<^verbatim>\<open>buildPool\<close>, the queue-based pool writes the failure to \<^verbatim>\<open>console.error\<close> and
  \<^verbatim>\<open>buildPool\<close> returns there: the pool keeps the workers created before, the remaining
  creations are not attempted, and no worker is constructed afterwards, whatever happens
  to the pool. In \<^verbatim>\<open>src/index.js\<close> the exception leaves the loop as well, with the
  workers pushed so far in the pool.
\<close>

theorem buildPool_stops_at_failure:
  assumes "i < poolSize_q q" and "\<not> fst (new_Worker (spawns_q q))" and "starting_q q = []"
    and "i < poolSize s" and "\<not> fst (new_Worker (spawns s))"
  shows "pool_q (buildPool_from_q i q) = pool_q q \<and>
         workers_q (buildPool_from_q i q) = workers_q q \<and>
         building_q (buildPool_from_q i q) = None \<and>
         effects_q (buildPool_from_q i q) = effects_q q @ [ConsoleError FailedToBuild] \<and>
         workers_q (state_of (exec_q evs (buildPool_from_q i q))) = workers_q q \<and>
         spawns_q (state_of (exec_q evs (buildPool_from_q i q))) = snd (new_Worker (spawns_q q)) \<and>
         buildPool_from i s = Inl (WorkerInitError, s\<lparr>spawns := snd (new_Worker (spawns s))\<rparr>)"
proof -
  have a: "pool_q (buildPool_from_q i q) = pool_q q \<and>
         workers_q (buildPool_from_q i q) = workers_q q \<and>
         building_q (buildPool_from_q i q) = None \<and>
         effects_q (buildPool_from_q i q) = effects_q q @ [ConsoleError FailedToBuild]"
    using assms(1,2) by (simp add: buildPool_from_q_def addWorkerToPool_def emit_q_def)
  have "build_over (workers_q q) (snd (new_Worker (spawns_q q))) (buildPool_from_q i q)"
    using assms(1,2,3)
    by (simp add: build_over_def buildPool_from_q_def addWorkerToPool_def emit_q_def)
  then have "build_over (workers_q q) (snd (new_Worker (spawns_q q)))
               (state_of (exec_q evs (buildPool_from_q i q)))"
    by (rule build_over_exec)
  then have b: "workers_q (state_of (exec_q evs (buildPool_from_q i q))) = workers_q q \<and>
     spawns_q (state_of (exec_q evs (buildPool_from_q i q))) = snd (new_Worker (spawns_q q))"
    by (simp add: build_over_def)
  have c: "buildPool_from i s = Inl (WorkerInitError, s\<lparr>spawns := snd (new_Worker (spawns s))\<rparr>)"
    using assms(4,5) by (subst buildPool_from.simps) simp
  from a b c show ?thesis by simp
qed

theorem buildPool_stops_at_failure_witness:
  "workers_q (state_of (exec_q [Online_q 0, Online_q 1, Run_q task1 None 10]
                (queue3 [True, False, True]))) = [(0, 1)] \<and>
   spawns_q (state_of (exec_q [Online_q 0, Online_q 1, Run_q task1 None 10]
                (queue3 [True, False, True]))) = [True] \<and>
   buildPool_from 1 (pool2\<lparr>spawns := [False, True]\<rparr>) =
     Inl (WorkerInitError, pool2\<lparr>spawns := [True]\<rparr>)"
proof -
  define q where "q = (queue3 [True, False, True])
     \<lparr>starting_q := [],
      pool_q := [\<lparr>wid = 1, worker = 0, busy = False, resolve = None, reject = None,
                  startTime = None, taskId = None\<rparr>]\<rparr>"
  have q: "poolSize_q q = 3" "spawns_q q = [False, True]" "starting_q q = []"
    "workers_q q = [(0, 1)]"
    unfolding q_def by code_simp+
  have e: "state_of (exec_q [Online_q 0, Online_q 1, Run_q task1 None 10]
             (queue3 [True, False, True])) =
           state_of (exec_q [Online_q 1, Run_q task1 None 10] (buildPool_from_q 1 q))"
    unfolding q_def by code_simp
  have s: "poolSize (pool2\<lparr>spawns := [False, True]\<rparr>) = 2"
    by (simp add: pool2_eq)
  from buildPool_stops_at_failure
         [of 1 q "pool2\<lparr>spawns := [False, True]\<rparr>" "[Online_q 1, Run_q task1 None 10]"]
       q s
  have "workers_q (state_of (exec_q [Online_q 1, Run_q task1 None 10] (buildPool_from_q 1 q))) =
          [(0, 1)] \<and>
        spawns_q (state_of (exec_q [Online_q 1, Run_q task1 None 10] (buildPool_from_q 1 q))) =
          [True] \<and>
        buildPool_from 1 (pool2\<lparr>spawns := [False, True]\<rparr>) =
          Inl (WorkerInitError, pool2\<lparr>spawns := [True]\<rparr>)"
    by simp
  with e show ?thesis by simp
qed

theorem buildPool_failure_counterexample:
  "poolSize_q (queue3 [True, False, True]) = 3 \<and>
   length (workers_q (state_of (exec_q [Online_q 0, Online_q 1, Online_q 2]
                        (queue3 [True, False, True])))) = 1 \<and>
   length (pool_q (state_of (exec_q [Online_q 0, Online_q 1, Online_q 2]
                        (queue3 [True, False, True])))) = 1 \<and>
   spawns_q (state_of (exec_q [Online_q 0, Online_q 1, Online_q 2]
                        (queue3 [True, False, True]))) = [True] \<and>
   building_q (state_of (exec_q [Online_q 0, Online_q 1, Online_q 2]
                        (queue3 [True, False, True]))) = None"
  by code_simp

lemma settled_Terminated: "settled (map (\<lambda>w. Terminated (worker w)) ws) = []"
  by (induction ws) simp_all

lemma stuck_run_q: "stuck s \<Longrightarrow> stuck (run_q t tid now s)"
proof -
  assume st: "stuck s"
  let ?s1 = "emit_q (Submitted (promises_q s) t)
               (s\<lparr>promises_q := Suc (promises_q s),
                  taskQueue := taskQueue s @ [\<lparr>e_task = t, e_taskId = tid, e_promise = promises_q s\<rparr>]\<rparr>)"
  from st have "\<forall>w \<in> set (pool_q ?s1). busy w" by (simp add: stuck_def emit_q_def)
  then have "assignTasks now ?s1 = Inr ?s1" by (rule assignTasks_saturated)
  then have r: "run_q t tid now s = ?s1" by (simp add: run_q_def Let_def)
  from st have ne: "submitted (effects_q s) \<noteq> []" by (auto simp: stuck_def)
  then have ge: "Suc 0 \<le> length (submitted (effects_q s))"
    by (cases "submitted (effects_q s)") simp_all
  from st ge show ?thesis unfolding r
    by (simp add: stuck_def emit_q_def settled_append posted_append submitted_append queued_def)
qed

lemma stuck_step_q: "stuck s \<Longrightarrow> silent 0 ev \<Longrightarrow> stuck (state_of (step_q ev s))"
proof (cases ev)
  case (Run_q t tid now)
  then show "stuck s \<Longrightarrow> ?thesis" by (simp add: stuck_run_q)
next
  case (Online_q h)
  then show "stuck s \<Longrightarrow> ?thesis" by (simp add: online_q_def stuck_def)
next
  case (Message_q h r now)
  assume "stuck s" "silent 0 ev"
  with Message_q have "h \<notin> fst ` set (workers_q s)"
    by (metis (no_types, lifting) list.set_map list.simps(15) empty_set insert_iff empty_iff
        silent.simps(1) stuck_def)
  then have "map_of (workers_q s) h = None" by (simp add: map_of_eq_None_iff)
  with Message_q \<open>stuck s\<close> show ?thesis by simp
next
  case (WorkerError_q h)
  then show "stuck s \<Longrightarrow> ?thesis"
    by (auto simp: stuck_def emit_q_def settled_append posted_append submitted_append queued_def
        split: option.splits)
next
  case TerminateAll_q
  then show "stuck s \<Longrightarrow> ?thesis"
    by (simp add: stuck_def terminateAllWorkers_q_def effects_fold_Terminated frame_fold_Terminated
        settled_append posted_append submitted_append queued_def
        settled_Terminated posted_Terminated submitted_Terminated)
qed

lemma stuck_exec_q: "list_all (silent 0) evs \<Longrightarrow> stuck s \<Longrightarrow> stuck (state_of (exec_q evs s))"
proof (induction evs arbitrary: s)
  case Nil
  then show ?case by simp
next
  case (Cons ev evs)
  then have st: "stuck (state_of (step_q ev s))" by (simp add: stuck_step_q)
  show ?case
  proof (cases "step_q ev s")
    case (Inl x)
    with st show ?thesis by (cases x) simp
  next
    case (Inr s')
    with st Cons show ?thesis by simp
  qed
qed

lemma stuck_queue1_failed: "stuck queue1_failed"
  by code_simp

text \<open>
  Claim C3, at its failing input: the queue-based pool of one worker, whose worker took
  \<open>task1\<close> and then emitted \<^verbatim>\<open>'error'\<close>. Whatever happens next, as long as the failed worker
  posts no message, the promise of \<open>task1\<close> is never settled, no other promise is, no
  further task is posted, and every task submitted later stays in the queue.
\<close>

theorem failed_task_never_settles:
  assumes "list_all (silent 0) evs" and "s = state_of (exec_q evs queue1_failed)"
  shows "take 1 (submitted (effects_q s)) = [(0, task1)] \<and> settled (effects_q s) = [] \<and>
         posted (effects_q s) = [task1] \<and> queued s = drop 1 (submitted (effects_q s))"
proof -
  have "stuck s" unfolding assms(2) by (rule stuck_exec_q[OF assms(1) stuck_queue1_failed])
  then show ?thesis by (simp add: stuck_def)
qed

theorem failed_task_never_settles_witness:
  "settled (effects_q (state_of (exec_q
      [Run_q task2 None 20, WorkerError_q 0, Run_q task3 None 30] queue1_failed))) = [] \<and>
   posted (effects_q (state_of (exec_q
      [Run_q task2 None 20, WorkerError_q 0, Run_q task3 None 30] queue1_failed))) = [task1] \<and>
   queued (state_of (exec_q
      [Run_q task2 None 20, WorkerError_q 0, Run_q task3 None 30] queue1_failed)) =
     [(1, task2), (2, task3)]"
proof -
  have a: "list_all (silent 0) [Run_q task2 None 20, WorkerError_q 0, Run_q task3 None 30]"
    by simp
  have b: "queued (state_of (exec_q
      [Run_q task2 None 20, WorkerError_q 0, Run_q task3 None 30] queue1_failed)) =
     [(1, task2), (2, task3)]"
    by code_simp
  from failed_task_never_settles [OF a refl] b show ?thesis by simp
qed

end
